theory Spec2Isabelle
  imports Complex_Main "HOL-Library.Word" "HOL-Library.Signed_Division"
    "HOL-Library.Code_Target_Numeral"
begin

unbundle bit_operations_syntax

section \<open>Rotary encoder with push button (beagle side/hal/src/rotary.c)\<close>

text \<open>
  A C \<^verbatim>\<open>int\<close> (and an \<^verbatim>\<open>atomic_int\<close>) is a 32-bit two's complement word:
  \<^verbatim>\<open>atomic_fetch_add\<close> wraps around, and \<^verbatim>\<open>a<<1\<close> of the failure value -1 is
  the arithmetic shift that the target compiler produces (-2). The \<^verbatim>\<open>long long\<close>
  millisecond arithmetic on \<^verbatim>\<open>struct timespec\<close> is on \<open>int\<close>, with C's truncating
  division written \<open>sdiv\<close>.
\<close>

type_synonym cint = "32 word"

record timespec =
  tv_sec :: int
  tv_nsec :: int

text \<open>What one \<^verbatim>\<open>read(fd, buf, 15)\<close> on a GPIO value file gives: an error (a negative
  count), or the bytes that were read (possibly none).\<close>

datatype read_result = ReadErr | ReadBytes string

text \<open>The three atomics, the three file descriptors and the locals of the polling thread.\<close>

record encoder =
  g_pos :: cint
  g_run :: cint
  g_button_edge :: cint
  fd_a :: cint
  fd_b :: cint
  fd_sw :: cint
  last :: cint
  last_sw :: cint
  last_sw_time :: timespec

text \<open>The inputs of one iteration of the polling loop: the three reads and the monotonic
  clock.\<close>

record tick_in =
  rd_a :: read_result
  rd_b :: read_result
  rd_sw :: read_result
  now :: timespec

definition sysfs_read_int :: "cint \<Rightarrow> read_result \<Rightarrow> cint" where
  "sysfs_read_int fd r =
     (if fd <s 0 then - 1
      else case r of
             ReadErr \<Rightarrow> - 1
           | ReadBytes [] \<Rightarrow> - 1
           | ReadBytes (c # _) \<Rightarrow> (if c = CHR ''0'' then 0 else 1))"

text \<open>\<^verbatim>\<open>int state = (a<<1) | b;\<close>\<close>

definition quad_sample :: "cint \<Rightarrow> cint \<Rightarrow> tick_in \<Rightarrow> cint" where
  "quad_sample fa fb i =
     (let a = sysfs_read_int fa (rd_a i);
          b = sysfs_read_int fb (rd_b i)
      in push_bit 1 a OR b)"

text \<open>\<^verbatim>\<open>int diff = (last<<2) | state;\<close>\<close>

definition transition_code :: "cint \<Rightarrow> cint \<Rightarrow> cint" where
  "transition_code l state = push_bit 2 l OR state"

text \<open>The \<^verbatim>\<open>switch (diff)\<close> on the position counter.\<close>

definition switch_diff :: "cint \<Rightarrow> encoder \<Rightarrow> encoder" where
  "switch_diff diff st =
     (if diff = 0x1 \<or> diff = 0x7 \<or> diff = 0xE \<or> diff = 0x8 then st\<lparr>g_pos := g_pos st + 1\<rparr>
      else if diff = 0x2 \<or> diff = 0x4 \<or> diff = 0xD \<or> diff = 0xB then st\<lparr>g_pos := g_pos st - 1\<rparr>
      else st)"

definition quadrature_update :: "encoder \<Rightarrow> tick_in \<Rightarrow> encoder" where
  "quadrature_update st i =
     (let state = quad_sample (fd_a st) (fd_b st) i;
          diff = transition_code (last st) state
      in (switch_diff diff st)\<lparr>last := state\<rparr>)"

definition dt_ms :: "timespec \<Rightarrow> timespec \<Rightarrow> int" where
  "dt_ms n l = (tv_sec n - tv_sec l) * 1000 + (tv_nsec n - tv_nsec l) sdiv 1000000"

definition button_update :: "encoder \<Rightarrow> tick_in \<Rightarrow> encoder" where
  "button_update st i =
     (let sw = sysfs_read_int (fd_sw st) (rd_sw i)
      in if sw \<noteq> last_sw st then
           (let d = dt_ms (now i) (last_sw_time st);
                st' = st\<lparr>last_sw_time := now i, last_sw := sw\<rparr>
            in if sw = 1 \<and> d > 50 then st'\<lparr>g_button_edge := 1\<rparr> else st')
         else st)"

text \<open>One iteration of the body of \<^verbatim>\<open>while (atomic_load(&g_run))\<close>.\<close>

definition encoder_tick :: "encoder \<Rightarrow> tick_in \<Rightarrow> encoder" where
  "encoder_tick st i = button_update (quadrature_update st i) i"

text \<open>The reads before the loop: \<^verbatim>\<open>last\<close>, \<^verbatim>\<open>last_sw\<close> and the zeroed
  \<^verbatim>\<open>last_sw_time\<close>.\<close>

definition encoder_thread_enter :: "encoder \<Rightarrow> tick_in \<Rightarrow> encoder" where
  "encoder_thread_enter st i =
     st\<lparr>last := quad_sample (fd_a st) (fd_b st) i,
        last_sw := sysfs_read_int (fd_sw st) (rd_sw i),
        last_sw_time := \<lparr>tv_sec = 0, tv_nsec = 0\<rparr>\<rparr>"

text \<open>The loop, over the inputs of its successive iterations; it stops when the run flag
  is found cleared.\<close>

fun encoder_loop :: "encoder \<Rightarrow> tick_in list \<Rightarrow> encoder" where
  "encoder_loop st [] = st"
| "encoder_loop st (i # is) =
     (if g_run st = 0 then st else encoder_loop (encoder_tick st i) is)"

definition rotaryEncoder_get_position :: "encoder \<Rightarrow> cint" where
  "rotaryEncoder_get_position st = g_pos st"

definition rotaryEncoder_set_position :: "cint \<Rightarrow> encoder \<Rightarrow> encoder" where
  "rotaryEncoder_set_position v st = st\<lparr>g_pos := v\<rparr>"

text \<open>\<^verbatim>\<open>atomic_exchange(&g_button_edge, 0) != 0\<close>: the value returned and the state left.\<close>

definition rotaryEncoder_button_pressed :: "encoder \<Rightarrow> bool \<times> encoder" where
  "rotaryEncoder_button_pressed st = (g_button_edge st \<noteq> 0, st\<lparr>g_button_edge := 0\<rparr>)"

text \<open>
  The poller touches each atomic at most once per iteration and the consumer calls touch
  one atomic each, so every concurrent execution is an interleaving of whole iterations
  and whole calls. \<open>run_events\<close> executes such an interleaving and collects what the
  calls of \<^verbatim>\<open>rotaryEncoder_button_pressed\<close> returned.
\<close>

datatype event = Tick tick_in | Pressed | SetPosition cint

fun run_events :: "encoder \<Rightarrow> event list \<Rightarrow> bool list \<times> encoder" where
  "run_events st [] = ([], st)"
| "run_events st (Tick i # es) = run_events (encoder_tick st i) es"
| "run_events st (Pressed # es) =
     (case rotaryEncoder_button_pressed st of
        (r, st') \<Rightarrow> (case run_events st' es of (rs, st'') \<Rightarrow> (r # rs, st'')))"
| "run_events st (SetPosition v # es) = run_events (rotaryEncoder_set_position v st) es"

text \<open>The Gray cycle of the specification, 00 \<rightarrow> 01 \<rightarrow> 11 \<rightarrow> 10 \<rightarrow> 00, on 2-bit samples.\<close>

definition gray_next :: "cint \<Rightarrow> cint" where
  "gray_next s = (if s = 0 then 1 else if s = 1 then 3 else if s = 3 then 2 else 0)"

fun gray_forward :: "cint \<Rightarrow> cint list \<Rightarrow> bool" where
  "gray_forward s [] = True"
| "gray_forward s (x # xs) = (x = gray_next s \<and> gray_forward x xs)"

fun gray_reverse :: "cint \<Rightarrow> cint list \<Rightarrow> bool" where
  "gray_reverse s [] = True"
| "gray_reverse s (x # xs) = (x \<in> {0, 1, 2, 3} \<and> s = gray_next x \<and> gray_reverse x xs)"

text \<open>The condition under which an iteration publishes a press, as the source tests it.\<close>

definition registers :: "encoder \<Rightarrow> tick_in \<Rightarrow> bool" where
  "registers st i =
     (let sw = sysfs_read_int (fd_sw st) (rd_sw i)
      in sw \<noteq> last_sw st \<and> sw = 1 \<and> dt_ms (now i) (last_sw_time st) > 50)"

text \<open>An interleaving in which no iteration publishes a press.\<close>

fun quiet :: "encoder \<Rightarrow> event list \<Rightarrow> bool" where
  "quiet st [] = True"
| "quiet st (Tick i # es) = (\<not> registers st i \<and> quiet (encoder_tick st i) es)"
| "quiet st (Pressed # es) = quiet (snd (rotaryEncoder_button_pressed st)) es"
| "quiet st (SetPosition v # es) = quiet (rotaryEncoder_set_position v st) es"

text \<open>An interleaving during which the button stays down: every iteration samples 1.\<close>

fun held :: "cint \<Rightarrow> event list \<Rightarrow> bool" where
  "held fd [] = True"
| "held fd (Tick i # es) = (sysfs_read_int fd (rd_sw i) = 1 \<and> held fd es)"
| "held fd (Pressed # es) = held fd es"
| "held fd (SetPosition v # es) = held fd es"

text \<open>What the consumer is to see of one press: the first call after it reports it, no
  later one does.\<close>

definition once :: "nat \<Rightarrow> bool list" where
  "once n = (case n of 0 \<Rightarrow> [] | Suc k \<Rightarrow> True # replicate k False)"

text \<open>The elapsed time between two instants, in nanoseconds.\<close>

definition elapsed_ns :: "timespec \<Rightarrow> timespec \<Rightarrow> int" where
  "elapsed_ns n l = (tv_sec n - tv_sec l) * 1000000000 + (tv_nsec n - tv_nsec l)"

definition normalized :: "timespec \<Rightarrow> bool" where
  "normalized t = (0 \<le> tv_nsec t \<and> tv_nsec t < 1000000000)"

text \<open>A poller at rest and the inputs of an iteration, for the examples.\<close>

definition enc0 :: encoder where
  "enc0 = \<lparr>g_pos = 0, g_run = 1, g_button_edge = 0, fd_a = 3, fd_b = 4, fd_sw = 5,
           last = 0, last_sw = 0, last_sw_time = \<lparr>tv_sec = 0, tv_nsec = 0\<rparr>\<rparr>"

definition tick_of :: "read_result \<Rightarrow> read_result \<Rightarrow> read_result \<Rightarrow> int \<Rightarrow> int \<Rightarrow> tick_in" where
  "tick_of a b sw s ns = \<lparr>rd_a = a, rd_b = b, rd_sw = sw, now = \<lparr>tv_sec = s, tv_nsec = ns\<rparr>\<rparr>"

definition read0 :: read_result where "read0 = ReadBytes ''0''"
definition read1 :: read_result where "read1 = ReadBytes ''1''"

section \<open>The sysfs files, as the two PWM modules see them\<close>

text \<open>
  Both \<^verbatim>\<open>PWM0.c\<close> and \<^verbatim>\<open>servo.c\<close> drive the hardware through files under
  \<^verbatim>\<open>/sys/class/pwm\<close>. The operating system is a parameter of the model: a record of
  functions on a hidden state \<open>'h\<close> that every call may change, so a theorem
  about all such records holds whatever the hardware answers. The \<open>trace\<close> of a world
  is ghost state: the \<^verbatim>\<open>write\<close> system calls issued and the pauses taken, in order.
\<close>

datatype wres = OpenFail int | WriteFail int | Wrote nat

record 'h sysfs =
  sys_write :: "string \<Rightarrow> string \<Rightarrow> 'h \<Rightarrow> wres \<times> 'h"
  sys_stat :: "string \<Rightarrow> 'h \<Rightarrow> bool \<times> 'h"
  sys_read :: "string \<Rightarrow> 'h \<Rightarrow> int option \<times> 'h"
  sys_sleep :: "nat \<Rightarrow> 'h \<Rightarrow> 'h"
  sys_glob :: "string \<Rightarrow> 'h \<Rightarrow> string list option \<times> 'h"
  sys_getenv :: "string \<Rightarrow> 'h \<Rightarrow> string option"
  lib_atoi :: "string \<Rightarrow> int"

datatype ev = EvWrite string string int | EvSleep nat

record 'h world =
  hw :: 'h
  trace :: "ev list"

text \<open>\<^verbatim>\<open>snprintf(buf, n, "%lld", v)\<close> and \<^verbatim>\<open>"%d"\<close>: the decimal numeral of an integer.\<close>

fun dec_digits :: "nat \<Rightarrow> string" where
  "dec_digits n =
     (if n < 10 then [''0123456789'' ! n]
      else dec_digits (n div 10) @ [''0123456789'' ! (n mod 10)])"

declare dec_digits.simps [simp del]

definition lld :: "int \<Rightarrow> string" where
  "lld v = (if v < 0 then CHR ''-'' # dec_digits (nat (- v)) else dec_digits (nat v))"

text \<open>\<^verbatim>\<open>stat(p, &st) == 0\<close>\<close>

definition path_exists :: "'h sysfs \<Rightarrow> string \<Rightarrow> 'h world \<Rightarrow> bool \<times> 'h world" where
  "path_exists os p w = (case sys_stat os p (hw w) of (b, h') \<Rightarrow> (b, w\<lparr>hw := h'\<rparr>))"

text \<open>\<^verbatim>\<open>nanosleep\<close>, in nanoseconds.\<close>

definition nsleep :: "'h sysfs \<Rightarrow> nat \<Rightarrow> 'h world \<Rightarrow> 'h world" where
  "nsleep os ns w = \<lparr>hw = sys_sleep os ns (hw w), trace = trace w @ [EvSleep ns]\<rparr>"

section \<open>Machine arithmetic\<close>

text \<open>
  A C \<^verbatim>\<open>int\<close> of \<^verbatim>\<open>servo.c\<close> and a \<^verbatim>\<open>long long\<close> of \<^verbatim>\<open>PWM0.c\<close> are kept as
  integers, with their ranges written out. Signed overflow is undefined in C; the compiled
  code computes modulo \<open>2\<^sup>3\<^sup>2\<close>, which is what \<open>wrap_int\<close> does to the result of
  an \<^verbatim>\<open>int\<close> operation.
\<close>

definition fits_int :: "int \<Rightarrow> bool" where
  "fits_int v = (- (2 ^ 31) \<le> v \<and> v < 2 ^ 31)"

definition fits_ll :: "int \<Rightarrow> bool" where
  "fits_ll v = (- (2 ^ 63) \<le> v \<and> v < 2 ^ 63)"

definition wrap_int :: "int \<Rightarrow> int" where
  "wrap_int v = (v + 2 ^ 31) mod 2 ^ 32 - 2 ^ 31"

text \<open>
  A C \<^verbatim>\<open>double\<close> is an IEEE 754 binary64 number. It is represented by the real number
  it denotes (the infinities and NaN are left out), and every operation that the source
  performs on doubles gives the exact result rounded to the nearest double, ties to the
  even significand: \<open>to_double\<close>. A double has a significand of 53 bits, so the spacing
  of the doubles around \<open>x\<close> is \<open>2\<^sup>e\<^sup>-\<^sup>5\<^sup>2\<close> for the binary exponent \<open>e\<close> of \<open>x\<close>
  (\<open>expo\<close>, not below -1022, where the subnormal numbers begin). Overflow to infinity
  is not modelled: it takes a magnitude of \<open>2\<^sup>1\<^sup>0\<^sup>2\<^sup>4\<close>, and the theorems keep the
  numbers within the range of \<^verbatim>\<open>long long\<close>.
\<close>

fun bit_length :: "nat \<Rightarrow> nat" where
  "bit_length n = (if n = 0 then 0 else Suc (bit_length (n div 2)))"

declare bit_length.simps [simp del]

text \<open>The binary exponent of a non-zero real: the \<open>e\<close> with \<open>2\<^sup>e \<le> |x| < 2\<^sup>e\<^sup>+\<^sup>1\<close>.\<close>

definition expo :: "real \<Rightarrow> int" where
  "expo x =
     (if 1 \<le> \<bar>x\<bar> then int (bit_length (nat \<lfloor>\<bar>x\<bar>\<rfloor>)) - 1
      else - int (bit_length (nat (\<lceil>1 / \<bar>x\<bar>\<rceil> - 1))))"

definition pow2 :: "int \<Rightarrow> real" where
  "pow2 e = (if 0 \<le> e then 2 ^ nat e else 1 / 2 ^ nat (- e))"

text \<open>Rounding to the nearest integer, ties to the even one.\<close>

definition round_even :: "real \<Rightarrow> int" where
  "round_even y =
     (let f = \<lfloor>y\<rfloor>; d = y - real_of_int f
      in if d < 1 / 2 then f else if 1 / 2 < d then f + 1 else if even f then f else f + 1)"

definition to_double :: "real \<Rightarrow> real" where
  "to_double x =
     (if x = 0 then 0
      else (let u = pow2 (max (expo x) (- 1022) - 52)
            in real_of_int (round_even (x / u)) * u))"

text \<open>The conversion \<^verbatim>\<open>(double)v\<close> of a \<^verbatim>\<open>long long\<close>, and the product and the
  quotient of two doubles.\<close>

definition double_of_ll :: "int \<Rightarrow> real" where
  "double_of_ll k = to_double (real_of_int k)"

definition dmul :: "real \<Rightarrow> real \<Rightarrow> real" where
  "dmul x y = to_double (x * y)"

definition ddiv :: "real \<Rightarrow> real \<Rightarrow> real" where
  "ddiv x y = to_double (x / y)"

text \<open>
  \<^verbatim>\<open>llround\<close> rounds to the nearest integer, halves away from zero. C leaves its result
  unspecified when the rounded value does not fit a \<^verbatim>\<open>long long\<close>; the model keeps the
  rounded value, and the theorems that depend on it assume that it fits (\<open>fits_ll\<close>).
\<close>

definition llround :: "real \<Rightarrow> int" where
  "llround x = (if 0 \<le> x then \<lfloor>x + 1 / 2\<rfloor> else \<lceil>x - 1 / 2\<rceil>)"

section \<open>Servo (beagle side/hal/src/servo.c)\<close>

text \<open>
  The fields of \<^verbatim>\<open>Servo\<close> are C \<^verbatim>\<open>int\<close>s. The arithmetic of \<^verbatim>\<open>pct_to_ns\<close> is on
  32 bits: every result is taken through \<open>wrap_int\<close>, and the division truncates
  (\<open>sdiv\<close>), since a product that has wrapped around can be negative.
\<close>

record Servo =
  chip :: int
  channel :: int
  period_ns :: int
  neutral_ns :: int
  min_ns :: int
  max_ns :: int
  base :: string
  enabled :: bool

text \<open>The \<^verbatim>\<open>errno\<close> values are those of Linux.\<close>

definition ENOENT :: int where "ENOENT = 2"
definition EIO :: int where "EIO = 5"
definition EBUSY :: int where "EBUSY = 16"
definition EINVAL :: int where "EINVAL = 22"

text \<open>\<^verbatim>\<open>write_str\<close> of \<^verbatim>\<open>servo.c\<close>: \<^verbatim>\<open>-errno\<close> when \<^verbatim>\<open>open\<close> or \<^verbatim>\<open>write\<close> fails,
  0 otherwise (a short write counts as success).\<close>

definition servo_write_str :: "'h sysfs \<Rightarrow> string \<Rightarrow> string \<Rightarrow> 'h world \<Rightarrow> int \<times> 'h world" where
  "servo_write_str os path val w =
     (case sys_write os path val (hw w) of (r, h') \<Rightarrow>
        (let rc = (case r of OpenFail e \<Rightarrow> - e | WriteFail e \<Rightarrow> - e | Wrote n \<Rightarrow> 0)
         in (rc, \<lparr>hw = h', trace = trace w @ [EvWrite path val rc]\<rparr>)))"

definition write_int :: "'h sysfs \<Rightarrow> string \<Rightarrow> int \<Rightarrow> 'h world \<Rightarrow> int \<times> 'h world" where
  "write_int os path v w = servo_write_str os path (lld v) w"

text \<open>\<^verbatim>\<open>for (int i = 0; i < 50 && !exists(pwm_path); ++i) nanosleep(20 ms);\<close>\<close>

function export_wait :: "'h sysfs \<Rightarrow> string \<Rightarrow> nat \<Rightarrow> 'h world \<Rightarrow> 'h world" where
  "export_wait os pwm_path i w =
     (if i < 50 then
        (case path_exists os pwm_path w of (e, w1) \<Rightarrow>
           if \<not> e then export_wait os pwm_path (i + 1) (nsleep os (20 * 1000 * 1000) w1)
           else w1)
      else w)"
  by pat_completeness auto
termination
  by (relation "measure (\<lambda>(os, p, i, w). 50 - i)") auto

declare export_wait.simps [simp del]

definition export_pwm :: "'h sysfs \<Rightarrow> int \<Rightarrow> int \<Rightarrow> 'h world \<Rightarrow> int \<times> 'h world" where
  "export_pwm os chp chn w =
     (let chip_path = ''/sys/class/pwm/pwmchip'' @ lld chp
      in case path_exists os chip_path w of (e0, w0) \<Rightarrow>
         if \<not> e0 then (- ENOENT, w0)
         else
           (let pwm_path = chip_path @ ''/pwm'' @ lld chn
            in case path_exists os pwm_path w0 of (e1, w1) \<Rightarrow>
               if e1 then (0, w1)
               else
                 (let export_path = chip_path @ ''/export''
                  in case write_int os export_path chn w1 of (rc, w2) \<Rightarrow>
                     if rc = - EBUSY then (0, w2)
                     else
                       (case path_exists os pwm_path (export_wait os pwm_path 0 w2) of
                          (e2, w3) \<Rightarrow> (if e2 then 0 else rc, w3)))))"

definition clamp :: "int \<Rightarrow> int \<Rightarrow> int \<Rightarrow> int" where
  "clamp v lo hi = (if v < lo then lo else if v > hi then hi else v)"

definition pct_to_ns :: "Servo \<Rightarrow> int \<Rightarrow> int \<Rightarrow> int" where
  "pct_to_ns s pct dir =
     (let pct' = clamp pct 0 100;
          span = wrap_int (max_ns s - neutral_ns s);
          span' = (if span < 0 then wrap_int (- span) else span);
          delta = wrap_int (span' * pct') sdiv 100
      in if dir \<ge> 0 then wrap_int (neutral_ns s + delta) else wrap_int (neutral_ns s - delta))"

text \<open>The servos on which no operation of \<^verbatim>\<open>pct_to_ns\<close> overflows, whatever the
  percentage: the span times 100 and the two ends \<^verbatim>\<open>neutral_ns\<close> \<open>\<plusminus>\<close> span fit an
  \<^verbatim>\<open>int\<close> (so do then \<^verbatim>\<open>neutral_ns\<close> and \<^verbatim>\<open>max_ns\<close>), as does \<^verbatim>\<open>min_ns\<close>.\<close>

definition span_fits :: "Servo \<Rightarrow> bool" where
  "span_fits s =
     (\<bar>max_ns s - neutral_ns s\<bar> * 100 < 2 ^ 31 \<and>
      fits_int (neutral_ns s - \<bar>max_ns s - neutral_ns s\<bar>) \<and>
      fits_int (neutral_ns s + \<bar>max_ns s - neutral_ns s\<bar>) \<and>
      fits_int (min_ns s))"

text \<open>\<^verbatim>\<open>servo_init\<close>, for a non-null \<^verbatim>\<open>s\<close>: the structure is overwritten, so only the
  arguments matter.\<close>

definition servo_init ::
  "'h sysfs \<Rightarrow> int \<Rightarrow> int \<Rightarrow> int \<Rightarrow> int \<Rightarrow> int \<Rightarrow> int \<Rightarrow> 'h world \<Rightarrow> int \<times> Servo \<times> 'h world" where
  "servo_init os chp chn per neu mn mx w =
     (let chp' = (if chp < 0 then
                    (case sys_getenv os ''PWM0_CHIP'' (hw w) of
                       None \<Rightarrow> 0
                     | Some env \<Rightarrow> if env \<noteq> [] then lib_atoi os env else 0)
                  else chp);
          s = \<lparr>chip = chp', channel = chn, period_ns = per, neutral_ns = neu,
               min_ns = mn, max_ns = mx, base = [], enabled = False\<rparr>
      in case export_pwm os chp' chn w of (rc, w1) \<Rightarrow>
         if rc \<noteq> 0 then (rc, s, w1)
         else
           (let s1 = s\<lparr>base := ''/sys/class/pwm/pwmchip'' @ lld chp' @ ''/pwm'' @ lld chn\<rparr>;
                p_period = base s1 @ ''/period'';
                p_enable = base s1 @ ''/enable'';
                p_duty = base s1 @ ''/duty_cycle'';
                p_polarity = base s1 @ ''/polarity'';
                w2 = snd (write_int os p_enable 0 w1);
                w3 = snd (write_int os p_duty 1 w2)
            in case path_exists os p_polarity w3 of (pe, w4) \<Rightarrow>
               (let w5 = (if pe then snd (servo_write_str os p_polarity ''normal'' w4) else w4)
                in case write_int os p_period (period_ns s1) w5 of (rc1, w6) \<Rightarrow>
                   if rc1 \<noteq> 0 then (rc1, s1, w6)
                   else case write_int os p_duty (neutral_ns s1) w6 of (rc2, w7) \<Rightarrow>
                     if rc2 \<noteq> 0 then (rc2, s1, w7)
                     else case write_int os p_enable 1 w7 of (rc3, w8) \<Rightarrow>
                       if rc3 \<noteq> 0 then (rc3, s1, w8)
                       else (0, s1\<lparr>enabled := True\<rparr>, w8))))"

definition servo_set_pulse_ns :: "'h sysfs \<Rightarrow> Servo \<Rightarrow> int \<Rightarrow> 'h world \<Rightarrow> int \<times> 'h world" where
  "servo_set_pulse_ns os s duty_ns w =
     (if \<not> enabled s then (- EIO, w)
      else
        (let duty_ns' = clamp duty_ns (min_ns s) (max_ns s);
             p_duty = base s @ ''/duty_cycle''
         in write_int os p_duty duty_ns' w))"

definition servo_right :: "'h sysfs \<Rightarrow> Servo \<Rightarrow> int \<Rightarrow> 'h world \<Rightarrow> int \<times> 'h world" where
  "servo_right os s speed_pct w = servo_set_pulse_ns os s (pct_to_ns s speed_pct 1) w"

definition servo_left :: "'h sysfs \<Rightarrow> Servo \<Rightarrow> int \<Rightarrow> 'h world \<Rightarrow> int \<times> 'h world" where
  "servo_left os s speed_pct w = servo_set_pulse_ns os s (pct_to_ns s speed_pct (- 1)) w"

definition servo_stop :: "'h sysfs \<Rightarrow> Servo \<Rightarrow> 'h world \<Rightarrow> int \<times> 'h world" where
  "servo_stop os s w = servo_set_pulse_ns os s (neutral_ns s) w"

definition servo_close :: "'h sysfs \<Rightarrow> Servo \<Rightarrow> 'h world \<Rightarrow> int \<times> Servo \<times> 'h world" where
  "servo_close os s w =
     (let p_enable = base s @ ''/enable'';
          w1 = snd (write_int os p_enable 0 w);
          chipdir = ''/sys/class/pwm/pwmchip'' @ lld (chip s);
          unexp = chipdir @ ''/unexport'';
          w2 = snd (write_int os unexp (channel s) w1)
      in (0, s\<lparr>enabled := False\<rparr>, w2))"

section \<open>PWM channel (beagle side/hal/src/PWM0.c)\<close>

text \<open>
  The doubles of this module are reals that go through \<open>to_double\<close> at every operation;
  the literals \<^verbatim>\<open>0.05\<close> and \<^verbatim>\<open>0.95\<close> are the doubles nearest to 5/100 and 95/100,
  while \<^verbatim>\<open>0.50\<close>, \<^verbatim>\<open>100.0\<close> and \<^verbatim>\<open>1e9\<close> are exact. \<^verbatim>\<open>errno\<close> and \<^verbatim>\<open>perror\<close>
  are left out.
\<close>

record pwm_globals =
  g_pwm_dir :: string
  g_period_ns :: int
  g_duty_frac :: real

text \<open>\<^verbatim>\<open>PATH_MAX\<close> is 4096 in \<^verbatim>\<open>linux/limits.h\<close>.\<close>

definition PATH_MAX :: nat where "PATH_MAX = 4096"

definition write_str :: "'h sysfs \<Rightarrow> string \<Rightarrow> string \<Rightarrow> 'h world \<Rightarrow> int \<times> 'h world" where
  "write_str os path s w =
     (case sys_write os path s (hw w) of (r, h') \<Rightarrow>
        (let rc = (case r of OpenFail e \<Rightarrow> - 1 | WriteFail e \<Rightarrow> - 1
                   | Wrote n \<Rightarrow> if n = length s then 0 else - 1)
         in (rc, \<lparr>hw = h', trace = trace w @ [EvWrite path s rc]\<rparr>)))"

definition write_ll :: "'h sysfs \<Rightarrow> string \<Rightarrow> int \<Rightarrow> 'h world \<Rightarrow> int \<times> 'h world" where
  "write_ll os path v w =
     (let buf = lld v; n = length buf
      in if n \<ge> 32 then (- 1, w) else write_str os path buf w)"

definition msleep :: "'h sysfs \<Rightarrow> nat \<Rightarrow> 'h world \<Rightarrow> 'h world" where
  "msleep os ms w = nsleep os (ms * 1000000) w"

definition path_join2 :: "nat \<Rightarrow> string \<Rightarrow> string \<Rightarrow> string option" where
  "path_join2 dstsz a b =
     (let la = min (length a) dstsz
      in if la \<ge> dstsz then None
         else (let lb = length b
               in if la + lb \<ge> dstsz then None else Some (a @ b)))"

definition bounded_dc_from_ratio :: "real \<Rightarrow> int \<Rightarrow> int" where
  "bounded_dc_from_ratio ratio per =
     (let r1 = (if ratio < to_double (5 / 100) then to_double (5 / 100) else ratio);
          r2 = (if r1 > to_double (95 / 100) then to_double (95 / 100) else r1);
          dc = llround (dmul r2 (double_of_ll per));
          dc1 = (if dc \<le> 0 then 1 else dc)
      in if dc1 \<ge> per then per - 1 else dc1)"

definition read_ll :: "'h sysfs \<Rightarrow> string \<Rightarrow> 'h world \<Rightarrow> int \<times> 'h world" where
  "read_ll os path w =
     (case sys_read os path (hw w) of
        (r, h') \<Rightarrow> ((case r of None \<Rightarrow> - 1 | Some v \<Rightarrow> v), w\<lparr>hw := h'\<rparr>))"

text \<open>\<^verbatim>\<open>for (int t = 0; t < 50 && !path_exists(pwm0); ++t) msleep(10);\<close>\<close>

function probe_wait :: "'h sysfs \<Rightarrow> string \<Rightarrow> nat \<Rightarrow> 'h world \<Rightarrow> 'h world" where
  "probe_wait os pwm0 t w =
     (if t < 50 then
        (case path_exists os pwm0 w of (e, w1) \<Rightarrow>
           if \<not> e then probe_wait os pwm0 (t + 1) (msleep os 10 w1) else w1)
      else w)"
  by pat_completeness auto
termination
  by (relation "measure (\<lambda>(os, p, t, w). 50 - t)") auto

declare probe_wait.simps [simp del]

text \<open>Lines 84 to 87 of \<^verbatim>\<open>probe_find_pwm\<close>: request the export of channel 0 when its
  directory is missing, and wait for it.\<close>

definition ensure_exported :: "'h sysfs \<Rightarrow> string \<Rightarrow> string \<Rightarrow> 'h world \<Rightarrow> 'h world" where
  "ensure_exported os exportf pwm0 w =
     (case path_exists os pwm0 w of (e1, w1) \<Rightarrow>
        if \<not> e1 then probe_wait os pwm0 0 (snd (write_str os exportf ''0'' w1)) else w1)"

text \<open>\<^verbatim>\<open>path_exists(enable) && path_exists(period) && path_exists(duty)\<close>\<close>

definition attrs_exist ::
  "'h sysfs \<Rightarrow> string \<Rightarrow> string \<Rightarrow> string \<Rightarrow> 'h world \<Rightarrow> bool \<times> 'h world" where
  "attrs_exist os enable period duty w =
     (case path_exists os enable w of (x1, w1) \<Rightarrow>
        if \<not> x1 then (False, w1)
        else case path_exists os period w1 of (x2, w2) \<Rightarrow>
          if \<not> x2 then (False, w2) else path_exists os duty w2)"

text \<open>The body of the loop of \<^verbatim>\<open>probe_find_pwm\<close> for one controller: \<open>Next\<close> is a
  \<^verbatim>\<open>continue\<close> (or the end of the body), \<open>Found\<close> the \<^verbatim>\<open>return 0\<close> with the channel
  directory to remember, \<open>NameTooLong\<close> the \<^verbatim>\<open>return -1\<close> of line 97.\<close>

datatype probe_result = Next | Found string | NameTooLong

definition probe_one :: "'h sysfs \<Rightarrow> string \<Rightarrow> 'h world \<Rightarrow> probe_result \<times> 'h world" where
  "probe_one os c w =
     (case path_join2 PATH_MAX c [] of None \<Rightarrow> (Next, w) | Some chipd \<Rightarrow>
      case path_join2 PATH_MAX chipd ''/export'' of None \<Rightarrow> (Next, w) | Some exportf \<Rightarrow>
      case path_join2 PATH_MAX chipd ''/pwm0'' of None \<Rightarrow> (Next, w) | Some pwm0 \<Rightarrow>
      case path_exists os pwm0 (ensure_exported os exportf pwm0 w) of (e2, w3) \<Rightarrow>
        if \<not> e2 then (Next, w3)
        else
          case path_join2 PATH_MAX pwm0 ''/enable'' of None \<Rightarrow> (Next, w3) | Some enable \<Rightarrow>
          case path_join2 PATH_MAX pwm0 ''/period'' of None \<Rightarrow> (Next, w3) | Some period \<Rightarrow>
          case path_join2 PATH_MAX pwm0 ''/duty_cycle'' of None \<Rightarrow> (Next, w3) | Some duty \<Rightarrow>
          case attrs_exist os enable period duty w3 of (ok, w6) \<Rightarrow>
            if ok then
              (case path_join2 PATH_MAX pwm0 [] of
                 None \<Rightarrow> (NameTooLong, w6)
               | Some d \<Rightarrow> (Found d, w6))
            else (Next, w6))"

text \<open>The loop over the paths that \<^verbatim>\<open>glob\<close> returned; falling out of the loop is the
  result -1.\<close>

fun probe_chips :: "'h sysfs \<Rightarrow> string list \<Rightarrow> pwm_globals \<Rightarrow> 'h world \<Rightarrow> int \<times> pwm_globals \<times> 'h world" where
  "probe_chips os [] g w = (- 1, g, w)"
| "probe_chips os (c # cs) g w =
     (case probe_one os c w of
        (Next, w') \<Rightarrow> probe_chips os cs g w'
      | (Found d, w') \<Rightarrow> (0, g\<lparr>g_pwm_dir := d\<rparr>, w')
      | (NameTooLong, w') \<Rightarrow> (- 1, g, w'))"

definition glob :: "'h sysfs \<Rightarrow> string \<Rightarrow> 'h world \<Rightarrow> string list option \<times> 'h world" where
  "glob os pat w = (case sys_glob os pat (hw w) of (r, h') \<Rightarrow> (r, w\<lparr>hw := h'\<rparr>))"

definition probe_find_pwm :: "'h sysfs \<Rightarrow> pwm_globals \<Rightarrow> 'h world \<Rightarrow> int \<times> pwm_globals \<times> 'h world" where
  "probe_find_pwm os g w =
     (if g_pwm_dir g \<noteq> [] then (0, g, w)
      else case glob os ''/sys/class/pwm/pwmchip*'' w of
             (None, w1) \<Rightarrow> (- 1, g, w1)
           | (Some pathv, w1) \<Rightarrow> probe_chips os pathv g w1)"

text \<open>Lines 119 to 125 of \<^verbatim>\<open>PWM0_init\<close>: the period and the duty ratio it programs.\<close>

definition init_period :: "real \<Rightarrow> int" where
  "init_period hz =
     (let hz1 = (if hz \<le> 0 then 100 else hz);
          per_ns = llround (ddiv 1000000000 hz1)
      in if per_ns < 1 then 1 else per_ns)"

definition init_fraction :: "real \<Rightarrow> real" where
  "init_fraction duty =
     (let d1 = (if duty < to_double (5 / 100) then 1 / 2 else duty)
      in if d1 > to_double (95 / 100) then 1 / 2 else d1)"

text \<open>One pass of the body of the bring-up loop: \<open>False\<close> is a \<^verbatim>\<open>continue\<close>, \<open>True\<close>
  is reaching the success branch.\<close>

definition init_attempt ::
  "'h sysfs \<Rightarrow> string \<Rightarrow> string \<Rightarrow> string \<Rightarrow> int \<Rightarrow> int \<Rightarrow> 'h world \<Rightarrow> bool \<times> 'h world" where
  "init_attempt os enable period dutyf per_ns dty_ns w =
     (let w1 = msleep os 2 (snd (write_ll os enable 0 w));
          w2 = msleep os 1 (snd (write_ll os dutyf 1 w1))
      in case write_ll os period per_ns w2 of (r3, w3) \<Rightarrow>
         if r3 \<noteq> 0 then (False, msleep os 2 w3)
         else case write_ll os dutyf dty_ns w3 of (r4, w4) \<Rightarrow>
           if r4 \<noteq> 0 then (False, msleep os 2 w4)
           else case write_ll os enable 1 w4 of (r5, w5) \<Rightarrow>
             if r5 \<noteq> 0 then (False, msleep os 2 w5) else (True, w5))"

function init_loop ::
  "'h sysfs \<Rightarrow> string \<Rightarrow> string \<Rightarrow> string \<Rightarrow> int \<Rightarrow> int \<Rightarrow> nat \<Rightarrow> pwm_globals \<Rightarrow> 'h world
     \<Rightarrow> int \<times> pwm_globals \<times> 'h world" where
  "init_loop os enable period dutyf per_ns dty_ns attempt g w =
     (if attempt < 3 then
        (case init_attempt os enable period dutyf per_ns dty_ns w of
           (ok, w') \<Rightarrow>
             if ok then
               (0, g\<lparr>g_period_ns := per_ns,
                     g_duty_frac := ddiv (double_of_ll dty_ns) (double_of_ll per_ns)\<rparr>, w')
             else init_loop os enable period dutyf per_ns dty_ns (attempt + 1) g w')
      else (- 1, g, w))"
  by pat_completeness auto
termination
  by (relation "measure (\<lambda>(os, e, p, d, per, dty, attempt, g, w). 3 - attempt)") auto

declare init_loop.simps [simp del]

definition PWM0_init ::
  "'h sysfs \<Rightarrow> real \<Rightarrow> real \<Rightarrow> pwm_globals \<Rightarrow> 'h world \<Rightarrow> int \<times> pwm_globals \<times> 'h world" where
  "PWM0_init os hz duty g w =
     (case probe_find_pwm os g w of (rc, g1, w1) \<Rightarrow>
        if rc \<noteq> 0 then (- 1, g1, w1)
        else
          case path_join2 PATH_MAX (g_pwm_dir g1) ''/enable'' of None \<Rightarrow> (- 1, g1, w1) | Some enable \<Rightarrow>
          case path_join2 PATH_MAX (g_pwm_dir g1) ''/period'' of None \<Rightarrow> (- 1, g1, w1) | Some period \<Rightarrow>
          case path_join2 PATH_MAX (g_pwm_dir g1) ''/duty_cycle'' of None \<Rightarrow> (- 1, g1, w1) | Some dutyf \<Rightarrow>
            (let per_ns = init_period hz;
                 dty_ns = bounded_dc_from_ratio (init_fraction duty) per_ns
             in init_loop os enable period dutyf per_ns dty_ns 0 g1 w1))"

text \<open>The three strategies of \<^verbatim>\<open>PWM0_set_freq\<close>. Fast path A: period, then duty.\<close>

definition freq_path_a :: "'h sysfs \<Rightarrow> string \<Rightarrow> string \<Rightarrow> int \<Rightarrow> int \<Rightarrow> 'h world \<Rightarrow> bool \<times> 'h world" where
  "freq_path_a os period dutyf new_per new_dty w =
     (case write_ll os period new_per w of (rp, w1) \<Rightarrow>
        if rp = 0 then
          (case write_ll os dutyf new_dty w1 of (rd, w2) \<Rightarrow> (rd = 0, w2))
        else (False, w1))"

text \<open>Fast path B: tiny duty, period, target duty.\<close>

definition freq_path_b :: "'h sysfs \<Rightarrow> string \<Rightarrow> string \<Rightarrow> int \<Rightarrow> int \<Rightarrow> 'h world \<Rightarrow> bool \<times> 'h world" where
  "freq_path_b os period dutyf new_per new_dty w =
     (case write_ll os dutyf 1 w of (r1, w1) \<Rightarrow>
        if r1 = 0 then
          (case write_ll os period new_per w1 of (rp, w2) \<Rightarrow>
             if rp = 0 then
               (case write_ll os dutyf new_dty w2 of (rd, w3) \<Rightarrow> (rd = 0, w3))
             else (False, w2))
        else (False, w1))"

text \<open>The back-off at the end of a failed pass of the fallback loop.\<close>

definition freq_backoff :: "'h sysfs \<Rightarrow> string \<Rightarrow> 'h world \<Rightarrow> 'h world" where
  "freq_backoff os enable w = msleep os 1 (snd (write_ll os enable 1 (msleep os 1 w)))"

text \<open>One pass of the fallback loop: \<open>True\<close> is the success branch, \<open>False\<close> the
  \<^verbatim>\<open>continue\<close> or the end of the body.\<close>

definition freq_attempt ::
  "'h sysfs \<Rightarrow> string \<Rightarrow> string \<Rightarrow> string \<Rightarrow> int \<Rightarrow> int \<Rightarrow> 'h world \<Rightarrow> bool \<times> 'h world" where
  "freq_attempt os enable period dutyf new_per new_dty w =
     (let w1 = msleep os 1 (snd (write_ll os enable 0 w));
          w2 = snd (write_ll os dutyf 1 w1)
      in case write_ll os period new_per w2 of (rp, w3) \<Rightarrow>
         if rp = 0 then
           (case write_ll os dutyf new_dty w3 of (rd, w4) \<Rightarrow>
              if rd = 0 then
                (case write_ll os enable 1 w4 of (re, w5) \<Rightarrow>
                   if re \<noteq> 0 then (False, w5) else (True, msleep os 1 w5))
              else (False, freq_backoff os enable w4))
         else (False, freq_backoff os enable w3))"

function freq_loop ::
  "'h sysfs \<Rightarrow> string \<Rightarrow> string \<Rightarrow> string \<Rightarrow> int \<Rightarrow> int \<Rightarrow> nat \<Rightarrow> 'h world \<Rightarrow> bool \<times> 'h world" where
  "freq_loop os enable period dutyf new_per new_dty attempt w =
     (if attempt < 2 then
        (case freq_attempt os enable period dutyf new_per new_dty w of
           (ok, w') \<Rightarrow>
             if ok then (True, w')
             else freq_loop os enable period dutyf new_per new_dty (attempt + 1) w')
      else (False, w))"
  by pat_completeness auto
termination
  by (relation "measure (\<lambda>(os, e, p, d, per, dty, attempt, w). 2 - attempt)") auto

declare freq_loop.simps [simp del]

text \<open>\<^verbatim>\<open>long long new_per = llround(1e9 / hz); if (new_per < 1) new_per = 1;\<close>\<close>

definition new_period :: "real \<Rightarrow> int" where
  "new_period hz =
     (let new_per = llround (ddiv 1000000000 hz) in if new_per < 1 then 1 else new_per)"

definition PWM0_set_freq ::
  "'h sysfs \<Rightarrow> real \<Rightarrow> pwm_globals \<Rightarrow> 'h world \<Rightarrow> int \<times> pwm_globals \<times> 'h world" where
  "PWM0_set_freq os hz g w =
     (if g_pwm_dir g = [] \<or> hz \<le> 0 then (- 1, g, w)
      else
        case path_join2 PATH_MAX (g_pwm_dir g) ''/enable'' of None \<Rightarrow> (- 1, g, w) | Some enable \<Rightarrow>
        case path_join2 PATH_MAX (g_pwm_dir g) ''/period'' of None \<Rightarrow> (- 1, g, w) | Some period \<Rightarrow>
        case path_join2 PATH_MAX (g_pwm_dir g) ''/duty_cycle'' of None \<Rightarrow> (- 1, g, w) | Some dutyf \<Rightarrow>
          (let new_per = new_period hz;
               ratio = g_duty_frac g;
               new_dty = bounded_dc_from_ratio ratio new_per;
               g' = g\<lparr>g_period_ns := new_per,
                      g_duty_frac := ddiv (double_of_ll new_dty) (double_of_ll new_per)\<rparr>
           in case read_ll os enable w of (was_enabled, w0) \<Rightarrow>
              (let w1 = (if was_enabled = 0
                         then msleep os 2 (snd (write_ll os enable 1 w0)) else w0)
               in case freq_path_a os period dutyf new_per new_dty w1 of (oka, w2) \<Rightarrow>
                  if oka then (0, g', w2)
                  else case freq_path_b os period dutyf new_per new_dty w2 of (okb, w3) \<Rightarrow>
                    if okb then (0, g', w3)
                    else case freq_loop os enable period dutyf new_per new_dty 0 w3 of
                      (okc, w4) \<Rightarrow> if okc then (0, g', w4) else (- 1, g, w4))))"

text \<open>The refresh of the cached period at the head of \<^verbatim>\<open>PWM0_set_duty\<close>: \<open>None\<close> is
  the early \<^verbatim>\<open>return -1\<close>.\<close>

definition cached_period ::
  "'h sysfs \<Rightarrow> pwm_globals \<Rightarrow> 'h world \<Rightarrow> pwm_globals option \<times> 'h world" where
  "cached_period os g w =
     (if g_period_ns g \<le> 0 then
        (case path_join2 PATH_MAX (g_pwm_dir g) ''/period'' of
           None \<Rightarrow> (None, w)
         | Some period \<Rightarrow>
             (case read_ll os period w of
                (p, w') \<Rightarrow> if p \<le> 0 then (None, w') else (Some (g\<lparr>g_period_ns := p\<rparr>), w')))
      else (Some g, w))"

definition PWM0_set_duty ::
  "'h sysfs \<Rightarrow> real \<Rightarrow> pwm_globals \<Rightarrow> 'h world \<Rightarrow> int \<times> pwm_globals \<times> 'h world" where
  "PWM0_set_duty os duty g w =
     (if g_pwm_dir g = [] then (- 1, g, w)
      else
        case cached_period os g w of
          (None, w0) \<Rightarrow> (- 1, g, w0)
        | (Some g1, w0) \<Rightarrow>
            (let g2 = g1\<lparr>g_duty_frac := duty\<rparr>
             in case path_join2 PATH_MAX (g_pwm_dir g2) ''/duty_cycle'' of
                  None \<Rightarrow> (- 1, g2, w0)
                | Some dutyf \<Rightarrow>
                    (let dc = bounded_dc_from_ratio (g_duty_frac g2) (g_period_ns g2)
                     in case write_ll os dutyf dc w0 of (r, w1) \<Rightarrow>
                        if r \<noteq> 0 then
                          (case path_join2 PATH_MAX (g_pwm_dir g2) ''/enable'' of
                             None \<Rightarrow> (- 1, g2, w1)
                           | Some enable \<Rightarrow>
                               (case read_ll os enable w1 of (we, w2) \<Rightarrow>
                                  (let was_enabled = (if we < 0 then 1 else we);
                                       w3 = msleep os 1 (snd (write_ll os enable 0 w2));
                                       w4 = snd (write_ll os dutyf 1 w3)
                                   in case write_ll os dutyf dc w4 of (r2, w5) \<Rightarrow>
                                      (let w6 = (if was_enabled \<noteq> 0
                                                 then snd (write_ll os enable 1 w5) else w5)
                                       in if r2 \<noteq> 0 then (- 1, g2, w6) else (0, g2, w6)))))
                        else (0, g2, w1))))"

definition PWM0_cleanup :: "'h sysfs \<Rightarrow> pwm_globals \<Rightarrow> 'h world \<Rightarrow> 'h world" where
  "PWM0_cleanup os g w =
     (if g_pwm_dir g = [] then w
      else case path_join2 PATH_MAX (g_pwm_dir g) ''/enable'' of
             None \<Rightarrow> w
           | Some enable \<Rightarrow> snd (write_str os enable ''0'' w))"

section \<open>Reading a trace\<close>

text \<open>The writes of a trace, without the pauses: path, text written, return code.\<close>

fun writes :: "ev list \<Rightarrow> (string \<times> string \<times> int) list" where
  "writes [] = []"
| "writes (EvWrite p v r # es) = (p, v, r) # writes es"
| "writes (EvSleep n # es) = writes es"

text \<open>The value an attribute holds after a list of writes: the text of the last write to
  it that was accepted, if any.\<close>

fun committed :: "string \<Rightarrow> (string \<times> string \<times> int) list \<Rightarrow> string option" where
  "committed p [] = None"
| "committed p ((q, v, r) # ws) =
     (case committed p ws of
        Some x \<Rightarrow> Some x
      | None \<Rightarrow> if q = p \<and> r = 0 then Some v else None)"

text \<open>Every text that a list of writes tried to write to an attribute, accepted or not.\<close>

fun written :: "string \<Rightarrow> (string \<times> string \<times> int) list \<Rightarrow> string list" where
  "written p [] = []"
| "written p ((q, v, r) # ws) = (if q = p then v # written p ws else written p ws)"

text \<open>The time a trace spent in pauses, in nanoseconds.\<close>

fun pause_total :: "ev list \<Rightarrow> nat" where
  "pause_total [] = 0"
| "pause_total (EvWrite q v r # es) = pause_total es"
| "pause_total (EvSleep n # es) = n + pause_total es"

text \<open>
  The bring-up sequence in the words of the specification: (1) force the output disabled,
  (2) write the duty 1 ns, (3) write the period, (4) write the duty, (5) enable; steps 1
  and 2 may fail, a pass ends at the first of steps 3 to 5 that fails. \<open>five_steps\<close>
  recognises the writes of one pass: \<open>Some True\<close> for a pass whose steps 3 to 5 were all
  accepted, \<open>Some False\<close> for a pass cut short by a rejected step, \<open>None\<close> for anything
  else.
\<close>

definition five_steps ::
  "string \<Rightarrow> string \<Rightarrow> string \<Rightarrow> int \<Rightarrow> int \<Rightarrow> (string \<times> string \<times> int) list \<Rightarrow> bool option" where
  "five_steps enable period dutyf per dty ws =
     (if take 2 (map (\<lambda>(p, v, r). (p, v)) ws) \<noteq> [(enable, ''0''), (dutyf, ''1'')] then None
      else case drop 2 ws of
        [(p3, v3, r3)] \<Rightarrow>
          if (p3, v3) = (period, lld per) \<and> r3 \<noteq> 0 then Some False else None
      | [(p3, v3, r3), (p4, v4, r4)] \<Rightarrow>
          if (p3, v3, r3) = (period, lld per, 0) \<and> (p4, v4) = (dutyf, lld dty) \<and> r4 \<noteq> 0
          then Some False else None
      | [(p3, v3, r3), (p4, v4, r4), (p5, v5, r5)] \<Rightarrow>
          if (p3, v3, r3) = (period, lld per, 0) \<and> (p4, v4, r4) = (dutyf, lld dty, 0) \<and>
             (p5, v5) = (enable, ''1'')
          then Some (r5 = 0) else None
      | _ \<Rightarrow> None)"

text \<open>An event of the wait for an exported channel: a write of \<^verbatim>\<open>0\<close> to an
  \<^verbatim>\<open>export\<close> file, or a pause of 10 ms.\<close>

definition export_or_pause :: "ev \<Rightarrow> bool" where
  "export_or_pause e =
     (case e of
        EvSleep n \<Rightarrow> n = 10000000
      | EvWrite p v r \<Rightarrow> v = ''0'' \<and> drop (length p - 7) p = ''/export'')"

text \<open>The second world continues the first: its trace is the first one's followed by
  events that all satisfy \<open>P\<close> and whose pauses add up to at most \<open>n\<close> nanoseconds.\<close>

definition extends_by :: "(ev \<Rightarrow> bool) \<Rightarrow> nat \<Rightarrow> 'h world \<Rightarrow> 'h world \<Rightarrow> bool" where
  "extends_by P n w w' =
     (take (length (trace w)) (trace w') = trace w \<and>
      list_all P (drop (length (trace w)) (trace w')) \<and>
      pause_total (drop (length (trace w)) (trace w')) \<le> n)"

section \<open>Fixtures for the examples\<close>

text \<open>
  A scripted operating system: its state is the list of answers to the coming writes
  (\<open>True\<close> accepts the write, \<open>False\<close> rejects it with \<^verbatim>\<open>EINVAL\<close>; past the end of
  the list every write is accepted). Every path exists or none does, every attribute
  reads the same value, and \<^verbatim>\<open>glob\<close> finds one controller.
\<close>

definition os_scripted :: "bool \<Rightarrow> int option \<Rightarrow> (bool list) sysfs" where
  "os_scripted present rd =
     \<lparr>sys_write = (\<lambda>p s h. case h of
                        [] \<Rightarrow> (Wrote (length s), [])
                      | b # bs \<Rightarrow> (if b then Wrote (length s) else WriteFail 22, bs)),
      sys_stat = (\<lambda>p h. (present, h)),
      sys_read = (\<lambda>p h. (rd, h)),
      sys_sleep = (\<lambda>n h. h),
      sys_glob = (\<lambda>pat h. (Some [''/sys/class/pwm/pwmchip0''], h)),
      sys_getenv = (\<lambda>n h. None),
      lib_atoi = (\<lambda>s. 0)\<rparr>"

definition world_of :: "bool list \<Rightarrow> (bool list) world" where
  "world_of script = \<lparr>hw = script, trace = []\<rparr>"

text \<open>The servo of \<^verbatim>\<open>app/src/main.c\<close>, after a successful \<^verbatim>\<open>servo_init\<close>.\<close>

definition servo0 :: Servo where
  "servo0 = \<lparr>chip = 0, channel = 0, period_ns = 20000000, neutral_ns = 1600000,
             min_ns = 1200000, max_ns = 2000000,
             base = ''/sys/class/pwm/pwmchip0/pwm0'', enabled = True\<rparr>"

text \<open>The module state of \<^verbatim>\<open>PWM0.c\<close> at program start, and after a probe.\<close>

definition pwm_start :: pwm_globals where
  "pwm_start = \<lparr>g_pwm_dir = [], g_period_ns = 0, g_duty_frac = 1 / 2\<rparr>"

definition pwm_probed :: "int \<Rightarrow> pwm_globals" where
  "pwm_probed per =
     \<lparr>g_pwm_dir = ''/sys/class/pwm/pwmchip0/pwm0'', g_period_ns = per, g_duty_frac = 1 / 2\<rparr>"

section \<open>The encoder: decoding and debouncing\<close>

lemma button_update_frame:
  "g_pos (button_update st i) = g_pos st"
  "last (button_update st i) = last st"
  "g_run (button_update st i) = g_run st"
  "fd_a (button_update st i) = fd_a st"
  "fd_b (button_update st i) = fd_b st"
  "fd_sw (button_update st i) = fd_sw st"
  by (simp_all add: button_update_def Let_def)

lemma quadrature_update_frame:
  "g_button_edge (quadrature_update st i) = g_button_edge st"
  "last_sw (quadrature_update st i) = last_sw st"
  "last_sw_time (quadrature_update st i) = last_sw_time st"
  "g_run (quadrature_update st i) = g_run st"
  "fd_a (quadrature_update st i) = fd_a st"
  "fd_b (quadrature_update st i) = fd_b st"
  "fd_sw (quadrature_update st i) = fd_sw st"
  "last (quadrature_update st i) = quad_sample (fd_a st) (fd_b st) i"
  by (simp_all add: quadrature_update_def switch_diff_def Let_def)

lemma encoder_tick_frame:
  "g_run (encoder_tick st i) = g_run st"
  "fd_a (encoder_tick st i) = fd_a st"
  "fd_b (encoder_tick st i) = fd_b st"
  "fd_sw (encoder_tick st i) = fd_sw st"
  "last (encoder_tick st i) = quad_sample (fd_a st) (fd_b st) i"
  by (simp_all add: encoder_tick_def button_update_frame quadrature_update_frame)

lemma encoder_tick_pos:
  "g_pos (encoder_tick st i) =
     g_pos (switch_diff (transition_code (last st) (quad_sample (fd_a st) (fd_b st) i)) st)"
  by (simp add: encoder_tick_def button_update_frame quadrature_update_def Let_def)

lemma code_table:
  assumes "l \<in> {0, 1, 2, 3}" "s \<in> {0, 1, 2, 3}"
  shows "(transition_code l s \<in> {0x1, 0x7, 0xE, 0x8} \<longleftrightarrow> s = gray_next l) \<and>
         (transition_code l s \<in> {0x2, 0x4, 0xD, 0xB} \<longleftrightarrow> l = gray_next s)"
  using assms by (auto simp: transition_code_def gray_next_def)

lemma switch_diff_pos:
  "g_pos (switch_diff c st) =
     (if c \<in> {0x1, 0x7, 0xE, 0x8} then g_pos st + 1
      else if c \<in> {0x2, 0x4, 0xD, 0xB} then g_pos st - 1 else g_pos st)"
  by (simp add: switch_diff_def)

lemma word_two_neq_0: "(2::cint) \<noteq> 0"
  by simp

lemma word_succ_neq_pred: "(p::cint) + 1 \<noteq> p - 1"
proof
  assume "p + 1 = p - 1"
  then have "(p + 1) - (p - 1) = 0" by simp
  then have "(2::cint) = 0" by simp
  then show False by simp
qed

lemma word_succ_neq: "(p::cint) + 1 \<noteq> p"
  by simp

lemma word_pred_neq: "(p::cint) - 1 \<noteq> p"
  by simp

lemma forward_run:
  "g_run st \<noteq> 0 \<Longrightarrow> last st \<in> {0, 1, 2, 3} \<Longrightarrow>
   gray_forward (last st) (map (quad_sample (fd_a st) (fd_b st)) is) \<Longrightarrow>
   g_pos (encoder_loop st is) = g_pos st + of_nat (length is)"
proof (induction "is" arbitrary: st)
  case Nil
  then show ?case by simp
next
  case (Cons i "is")
  let ?s = "quad_sample (fd_a st) (fd_b st) i"
  let ?st = "encoder_tick st i"
  from Cons.prems have s: "?s = gray_next (last st)" by simp
  with Cons.prems(2) have sv: "?s \<in> {0, 1, 2, 3}" by (auto simp: gray_next_def)
  from s sv Cons.prems(2) have c: "transition_code (last st) ?s \<in> {0x1, 0x7, 0xE, 0x8}"
    using code_table [of "last st" ?s] by blast
  have p: "g_pos ?st = g_pos st + 1"
    using c by (simp add: encoder_tick_pos switch_diff_pos)
  have "g_pos (encoder_loop ?st is) = g_pos ?st + of_nat (length is)"
  proof (rule Cons.IH)
    show "g_run ?st \<noteq> 0" using Cons.prems(1) by (simp add: encoder_tick_frame)
    show "last ?st \<in> {0, 1, 2, 3}" using sv by (simp add: encoder_tick_frame)
    from Cons.prems(3) have "gray_forward ?s (map (quad_sample (fd_a st) (fd_b st)) is)"
      by auto
    then show "gray_forward (last ?st) (map (quad_sample (fd_a ?st) (fd_b ?st)) is)"
      by (simp only: encoder_tick_frame)
  qed
  with p Cons.prems(1) show ?case by simp
qed

lemma reverse_run:
  "g_run st \<noteq> 0 \<Longrightarrow> last st \<in> {0, 1, 2, 3} \<Longrightarrow>
   gray_reverse (last st) (map (quad_sample (fd_a st) (fd_b st)) is) \<Longrightarrow>
   g_pos (encoder_loop st is) = g_pos st - of_nat (length is)"
proof (induction "is" arbitrary: st)
  case Nil
  then show ?case by simp
next
  case (Cons i "is")
  let ?s = "quad_sample (fd_a st) (fd_b st) i"
  let ?st = "encoder_tick st i"
  from Cons.prems have s: "last st = gray_next ?s" and sv: "?s \<in> {0, 1, 2, 3}" by simp_all
  from s sv Cons.prems(2) have c: "transition_code (last st) ?s \<in> {0x2, 0x4, 0xD, 0xB}"
    using code_table [of "last st" ?s] by blast
  then have nc: "transition_code (last st) ?s \<notin> {0x1, 0x7, 0xE, 0x8}" by auto
  have p: "g_pos ?st = g_pos st - 1"
    using c nc by (simp only: encoder_tick_pos switch_diff_pos if_True if_False)
  have "g_pos (encoder_loop ?st is) = g_pos ?st - of_nat (length is)"
  proof (rule Cons.IH)
    show "g_run ?st \<noteq> 0" using Cons.prems(1) by (simp add: encoder_tick_frame)
    show "last ?st \<in> {0, 1, 2, 3}" using sv by (simp add: encoder_tick_frame)
    from Cons.prems(3) have "gray_reverse ?s (map (quad_sample (fd_a st) (fd_b st)) is)"
      by simp
    then show "gray_reverse (last ?st) (map (quad_sample (fd_a ?st) (fd_b ?st)) is)"
      by (simp only: encoder_tick_frame)
  qed
  with p Cons.prems(1) show ?case by simp
qed


lemma sysfs_read_int_cases: "sysfs_read_int fd r = - 1 \<or> sysfs_read_int fd r = 0 \<or> sysfs_read_int fd r = 1"
  by (auto simp: sysfs_read_int_def split: read_result.splits list.splits)

lemma push2_or_m2: "push_bit 2 (l::cint) OR (- 2) = - 2"
  by (rule bit_word_eqI) (auto simp: bit_simps)

lemma failed_sample:
  assumes "sysfs_read_int fa (rd_a i) = - 1 \<or> sysfs_read_int fb (rd_b i) = - 1"
  shows "quad_sample fa fb i = - 1 \<or> quad_sample fa fb i = - 2"
  using assms sysfs_read_int_cases [of fa "rd_a i"] sysfs_read_int_cases [of fb "rd_b i"]
  by (auto simp: quad_sample_def Let_def)

lemma failed_code:
  assumes "s = - 1 \<or> s = - 2"
  shows "transition_code l s = - 1 \<or> transition_code l s = - 2"
  using assms by (auto simp: transition_code_def push2_or_m2)

lemma failed_read_keeps_pos:
  assumes "sysfs_read_int (fd_a st) (rd_a i) = - 1 \<or> sysfs_read_int (fd_b st) (rd_b i) = - 1"
  shows "g_pos (encoder_tick st i) = g_pos st"
proof -
  have "transition_code (last st) (quad_sample (fd_a st) (fd_b st) i) = - 1
      \<or> transition_code (last st) (quad_sample (fd_a st) (fd_b st) i) = - 2"
    using assms by (intro failed_code failed_sample)
  then show ?thesis
    by (auto simp: encoder_tick_pos switch_diff_pos)
qed

lemma button_update_flag:
  "g_button_edge (button_update st i) = (if registers st i then 1 else g_button_edge st)"
  by (simp add: button_update_def registers_def Let_def)

lemma encoder_tick_flag:
  "g_button_edge (encoder_tick st i) = (if registers st i then 1 else g_button_edge st)"
  by (simp add: encoder_tick_def button_update_flag registers_def quadrature_update_frame)

lemma encoder_tick_button:
  "last_sw (encoder_tick st i) =
     (if sysfs_read_int (fd_sw st) (rd_sw i) \<noteq> last_sw st
      then sysfs_read_int (fd_sw st) (rd_sw i) else last_sw st)"
  "last_sw_time (encoder_tick st i) =
     (if sysfs_read_int (fd_sw st) (rd_sw i) \<noteq> last_sw st then now i else last_sw_time st)"
  by (simp_all add: encoder_tick_def button_update_def Let_def quadrature_update_frame)

lemma failed_read_keeps_flag:
  assumes "sysfs_read_int (fd_sw st) (rd_sw i) = - 1"
  shows "g_button_edge (encoder_tick st i) = g_button_edge st"
  using assms by (simp add: encoder_tick_flag registers_def)

lemma sdiv_million_lower: "(x sdiv 1000000) * 1000000 - 1000000 < (x::int)"
proof (cases "0 \<le> x")
  case True
  then have "x sdiv 1000000 = x div 1000000"
    by (simp add: signed_divide_int_def sgn_if)
  then show ?thesis by simp
next
  case False
  then have "x sdiv 1000000 = - ((- x) div 1000000)"
    by (simp add: signed_divide_int_def sgn_if)
  then show ?thesis using False by simp
qed

lemma dt_ms_exceeds:
  assumes "dt_ms n l > 50"
  shows "elapsed_ns n l > 50000000"
proof -
  let ?q = "(tv_nsec n - tv_nsec l) sdiv 1000000"
  have "?q * 1000000 - 1000000 < tv_nsec n - tv_nsec l"
    by (rule sdiv_million_lower)
  moreover from assms have "(tv_sec n - tv_sec l) * 1000 + ?q \<ge> 51"
    by (simp add: dt_ms_def)
  ultimately show ?thesis
    by (simp add: elapsed_ns_def algebra_simps)
qed

lemma dt_ms_threshold:
  "dt_ms n l > 50 \<longleftrightarrow>
     (if tv_nsec n < tv_nsec l then elapsed_ns n l > 50000000 else elapsed_ns n l \<ge> 51000000)"
proof -
  let ?s = "tv_sec n - tv_sec l"
  let ?x = "tv_nsec n - tv_nsec l"
  show ?thesis
  proof (cases "tv_nsec n < tv_nsec l")
    case True
    then have neg: "?x < 0" by simp
    define q where "q = (- ?x) div 1000000"
    define r where "r = (- ?x) mod 1000000"
    have x: "- ?x = q * 1000000 + r" and r: "0 \<le> r" "r < 1000000"
      by (simp_all add: q_def r_def)
    from neg have "?x sdiv 1000000 = - q"
      by (simp add: signed_divide_int_def sgn_if q_def)
    then have d: "dt_ms n l = ?s * 1000 - q" by (simp add: dt_ms_def)
    have e: "elapsed_ns n l = ?s * 1000000000 - q * 1000000 - r"
      using x by (simp add: elapsed_ns_def)
    have "(?s * 1000 - q > 50) = (?s * 1000000000 - q * 1000000 - r > 50000000)"
      using r by linarith
    with True show ?thesis unfolding d e by simp
  next
    case False
    then have pos: "0 \<le> ?x" by simp
    define q where "q = ?x div 1000000"
    define r where "r = ?x mod 1000000"
    have x: "?x = q * 1000000 + r" and r: "0 \<le> r" "r < 1000000"
      by (simp_all add: q_def r_def)
    from pos have "?x sdiv 1000000 = q"
      by (simp add: signed_divide_int_def sgn_if q_def)
    then have d: "dt_ms n l = ?s * 1000 + q" by (simp add: dt_ms_def)
    have e: "elapsed_ns n l = ?s * 1000000000 + q * 1000000 + r"
      using x by (simp add: elapsed_ns_def)
    have "(?s * 1000 + q > 50) = (?s * 1000000000 + q * 1000000 + r \<ge> 51000000)"
      using r by linarith
    with False show ?thesis unfolding d e by simp
  qed
qed

lemma dt_ms_bounds:
  "elapsed_ns n l \<ge> 51000000 \<Longrightarrow> dt_ms n l > 50"
  "elapsed_ns n l \<le> 50000000 \<Longrightarrow> \<not> dt_ms n l > 50"
  unfolding dt_ms_threshold by (simp_all split: if_splits)

lemma quiet_results:
  "g_button_edge st = 0 \<Longrightarrow> quiet st es \<Longrightarrow>
   fst (run_events st es) = replicate (count_list es Pressed) False"
proof (induction es arbitrary: st)
  case Nil
  then show ?case by simp
next
  case (Cons e es)
  then show ?case
    by (cases e)
       (simp_all add: encoder_tick_flag rotaryEncoder_button_pressed_def
          rotaryEncoder_set_position_def case_prod_beta)
qed

lemma held_tick:
  assumes "last_sw st = 1" "sysfs_read_int (fd_sw st) (rd_sw i) = 1"
  shows "last_sw (encoder_tick st i) = 1" "g_button_edge (encoder_tick st i) = g_button_edge st"
  using assms by (simp_all add: encoder_tick_button encoder_tick_flag registers_def)

lemma held_results_unset:
  "g_button_edge st = 0 \<Longrightarrow> last_sw st = 1 \<Longrightarrow> held (fd_sw st) es \<Longrightarrow>
   fst (run_events st es) = replicate (count_list es Pressed) False"
proof (induction es arbitrary: st)
  case Nil
  then show ?case by simp
next
  case (Cons e es)
  then show ?case
    by (cases e)
       (simp_all add: held_tick encoder_tick_frame rotaryEncoder_button_pressed_def
          rotaryEncoder_set_position_def case_prod_beta)
qed

lemma held_results_set:
  "g_button_edge st \<noteq> 0 \<Longrightarrow> last_sw st = 1 \<Longrightarrow> held (fd_sw st) es \<Longrightarrow>
   fst (run_events st es) = once (count_list es Pressed)"
proof (induction es arbitrary: st)
  case Nil
  then show ?case by (simp add: once_def)
next
  case (Cons e es)
  show ?case
  proof (cases e)
    case (Tick i)
    with Cons show ?thesis by (simp add: held_tick encoder_tick_frame)
  next
    case Pressed
    have "fst (run_events (st\<lparr>g_button_edge := 0\<rparr>) es) = replicate (count_list es Pressed) False"
      using Cons.prems Pressed by (intro held_results_unset) simp_all
    with Cons.prems(1) Pressed show ?thesis
      by (simp add: rotaryEncoder_button_pressed_def once_def case_prod_beta)
  next
    case (SetPosition v)
    with Cons show ?thesis by (simp add: rotaryEncoder_set_position_def)
  qed
qed


lemma quiet_snoc_pressed: "quiet st (es @ [Pressed]) = quiet st es"
  by (induction st es rule: quiet.induct) simp_all

lemma code_lt_16:
  assumes "l \<in> {0, 1, 2, 3}" "s \<in> {0, 1, 2, 3}"
  shows "transition_code l s < 16"
  using assms by (auto simp: transition_code_def)

text \<open>
  Claim C1. Let the stored sample and the new sample both be 2-bit values (both reads
  succeeded). Then the 4-bit transition code is below 16; the iteration adds 1 to the
  position exactly for the codes 0x1, 0x7, 0xE, 0x8, subtracts 1 exactly for the codes
  0x2, 0x4, 0xD, 0xB and leaves it alone exactly for the others; the first four are the
  steps of the Gray cycle 00, 01, 11, 10, 00 and the second four are its steps backwards.
  Hence along any run of forward steps the position grows by the number of iterations,
  and along any run of backward steps it shrinks by that number (in 32-bit wrap-around
  arithmetic, as the counter is an \<^verbatim>\<open>atomic_int\<close>).
\<close>

theorem quadrature_decoding:
  assumes "last st \<in> {0, 1, 2, 3}"
    and "quad_sample (fd_a st) (fd_b st) i \<in> {0, 1, 2, 3}"
    and "g_run st \<noteq> 0"
  shows "(let s = quad_sample (fd_a st) (fd_b st) i;
              c = transition_code (last st) s;
              p = g_pos (encoder_tick st i)
          in c < 16 \<and>
             (p = g_pos st + 1 \<longleftrightarrow> c \<in> {0x1, 0x7, 0xE, 0x8}) \<and>
             (p = g_pos st - 1 \<longleftrightarrow> c \<in> {0x2, 0x4, 0xD, 0xB}) \<and>
             (p = g_pos st \<longleftrightarrow> c \<notin> {0x1, 0x7, 0xE, 0x8, 0x2, 0x4, 0xD, 0xB}) \<and>
             (c \<in> {0x1, 0x7, 0xE, 0x8} \<longleftrightarrow> s = gray_next (last st)) \<and>
             (c \<in> {0x2, 0x4, 0xD, 0xB} \<longleftrightarrow> last st = gray_next s)) \<and>
         (\<forall>ticks. gray_forward (last st) (map (quad_sample (fd_a st) (fd_b st)) ticks) \<longrightarrow>
            g_pos (encoder_loop st ticks) = g_pos st + of_nat (length ticks)) \<and>
         (\<forall>ticks. gray_reverse (last st) (map (quad_sample (fd_a st) (fd_b st)) ticks) \<longrightarrow>
            g_pos (encoder_loop st ticks) = g_pos st - of_nat (length ticks))"
proof -
  let ?s = "quad_sample (fd_a st) (fd_b st) i"
  let ?c = "transition_code (last st) ?s"
  let ?p = "g_pos (encoder_tick st i)"
  have p: "?p = (if ?c \<in> {0x1, 0x7, 0xE, 0x8} then g_pos st + 1
                 else if ?c \<in> {0x2, 0x4, 0xD, 0xB} then g_pos st - 1 else g_pos st)"
    by (simp only: encoder_tick_pos switch_diff_pos)
  have disj: "\<not> (?c \<in> {0x1, 0x7, 0xE, 0x8} \<and> ?c \<in> {0x2, 0x4, 0xD, 0xB})"
    by auto
  have up: "?p = g_pos st + 1 \<longleftrightarrow> ?c \<in> {0x1, 0x7, 0xE, 0x8}"
    unfolding p using word_succ_neq_pred [of "g_pos st"] by (auto simp del: insert_iff)
  have down: "?p = g_pos st - 1 \<longleftrightarrow> ?c \<in> {0x2, 0x4, 0xD, 0xB}"
    unfolding p using word_succ_neq_pred [of "g_pos st"] disj by (auto simp del: insert_iff)
  have same: "?p = g_pos st \<longleftrightarrow> ?c \<notin> {0x1, 0x7, 0xE, 0x8, 0x2, 0x4, 0xD, 0xB}"
    unfolding p by auto
  note tab = code_table [OF assms(1,2)]
  have one: "?c < 16 \<and> (?p = g_pos st + 1 \<longleftrightarrow> ?c \<in> {0x1, 0x7, 0xE, 0x8}) \<and>
             (?p = g_pos st - 1 \<longleftrightarrow> ?c \<in> {0x2, 0x4, 0xD, 0xB}) \<and>
             (?p = g_pos st \<longleftrightarrow> ?c \<notin> {0x1, 0x7, 0xE, 0x8, 0x2, 0x4, 0xD, 0xB}) \<and>
             (?c \<in> {0x1, 0x7, 0xE, 0x8} \<longleftrightarrow> ?s = gray_next (last st)) \<and>
             (?c \<in> {0x2, 0x4, 0xD, 0xB} \<longleftrightarrow> last st = gray_next ?s)"
    using code_lt_16 [OF assms(1,2)] up down same tab by blast
  have fwd: "\<forall>ticks. gray_forward (last st) (map (quad_sample (fd_a st) (fd_b st)) ticks) \<longrightarrow>
            g_pos (encoder_loop st ticks) = g_pos st + of_nat (length ticks)"
    using forward_run [OF assms(3,1)] by blast
  have bwd: "\<forall>ticks. gray_reverse (last st) (map (quad_sample (fd_a st) (fd_b st)) ticks) \<longrightarrow>
            g_pos (encoder_loop st ticks) = g_pos st - of_nat (length ticks)"
    using reverse_run [OF assms(3,1)] by blast
  from one fwd bwd show ?thesis
    unfolding Let_def by (intro conjI)  blast+
qed

theorem quadrature_decoding_witness:
  "g_pos (encoder_tick enc0 (tick_of read0 read1 read0 0 0)) = 1 \<and>
   g_pos (encoder_loop enc0
     [tick_of read0 read1 read0 0 0, tick_of read1 read1 read0 0 0,
      tick_of read1 read0 read0 0 0, tick_of read0 read0 read0 0 0,
      tick_of read0 read1 read0 0 0]) = 5 \<and>
   g_pos (encoder_loop enc0
     [tick_of read1 read0 read0 0 0, tick_of read1 read1 read0 0 0,
      tick_of read0 read1 read0 0 0, tick_of read0 read0 read0 0 0]) = - 4"
proof -
  let ?i = "tick_of read0 read1 read0 0 0"
  have a: "last enc0 \<in> {0, 1, 2, 3}" by (simp add: enc0_def)
  have s: "quad_sample (fd_a enc0) (fd_b enc0) ?i = 1"
    by (simp add: enc0_def tick_of_def read0_def read1_def quad_sample_def sysfs_read_int_def
        word_sless_alt)
  then have b: "quad_sample (fd_a enc0) (fd_b enc0) ?i \<in> {0, 1, 2, 3}" by simp
  have c: "g_run enc0 \<noteq> 0" by (simp add: enc0_def)
  note t = quadrature_decoding [OF a b c, unfolded Let_def]
  have code: "transition_code (last enc0) (quad_sample (fd_a enc0) (fd_b enc0) ?i) = 1"
    unfolding s by (simp add: enc0_def transition_code_def)
  from t have "g_pos (encoder_tick enc0 ?i) = g_pos enc0 + 1" unfolding code by simp
  then have one: "g_pos (encoder_tick enc0 ?i) = 1" by (simp add: enc0_def)
  let ?f = "[tick_of read0 read1 read0 0 0, tick_of read1 read1 read0 0 0,
      tick_of read1 read0 read0 0 0, tick_of read0 read0 read0 0 0,
      tick_of read0 read1 read0 0 0]"
  let ?r = "[tick_of read1 read0 read0 0 0, tick_of read1 read1 read0 0 0,
      tick_of read0 read1 read0 0 0, tick_of read0 read0 read0 0 0]"
  have gf: "gray_forward (last enc0) (map (quad_sample (fd_a enc0) (fd_b enc0)) ?f)"
    by (simp add: enc0_def tick_of_def read0_def read1_def quad_sample_def sysfs_read_int_def
        word_sless_alt gray_next_def)
  have gr: "gray_reverse (last enc0) (map (quad_sample (fd_a enc0) (fd_b enc0)) ?r)"
    by (simp add: enc0_def tick_of_def read0_def read1_def quad_sample_def sysfs_read_int_def
        word_sless_alt gray_next_def)
  from t gf have "g_pos (encoder_loop enc0 ?f) = g_pos enc0 + of_nat (length ?f)" by blast
  then have five: "g_pos (encoder_loop enc0 ?f) = 5" by (simp add: enc0_def)
  from t gr have "g_pos (encoder_loop enc0 ?r) = g_pos enc0 - of_nat (length ?r)" by blast
  then have four: "g_pos (encoder_loop enc0 ?r) = - 4" by (simp add: enc0_def)
  from one five four show ?thesis by blast
qed

lemmas fixture_defs = enc0_def tick_of_def read0_def read1_def sysfs_read_int_def
  word_sless_alt

lemma run_events_results:
  "fst (run_events st []) = []"
  "fst (run_events st (Tick i # es)) = fst (run_events (encoder_tick st i) es)"
  "fst (run_events st (Pressed # es)) =
     (g_button_edge st \<noteq> 0) # fst (run_events (st\<lparr>g_button_edge := 0\<rparr>) es)"
  "fst (run_events st (SetPosition v # es)) = fst (run_events (st\<lparr>g_pos := v\<rparr>) es)"
  by (simp_all add: rotaryEncoder_button_pressed_def rotaryEncoder_set_position_def
      case_prod_beta)

text \<open>
  Claim C2, as the code has it. The timestamp \<^verbatim>\<open>last_sw_time\<close> is that of the last
  level change of either direction, published or not. On an iteration whose sample differs
  from the tracked level, the tracked level becomes the sample and the timestamp becomes
  the current instant; the flag is set exactly when the sample is 1 and \<^verbatim>\<open>dt_ms\<close>
  exceeds 50, and is otherwise left as it was (so falling edges and rising edges inside the
  window never set it). On an iteration whose sample equals the tracked level, none of the
  three changes. \<^verbatim>\<open>dt_ms\<close> is the difference of the seconds fields times 1000 plus the
  difference of the nanosecond fields divided by 1,000,000 with truncation toward zero.
  It exceeds 50 exactly when at least 51,000,000 ns elapsed, if the nanosecond field of
  the current instant is not below that of the timestamp, and exactly when more than
  50,000,000 ns elapsed, if it is below (the division then rounds up). So at least 51 ms
  always suffice, 50 ms or less never do, and in between it depends on the nanosecond
  fields.
\<close>

theorem button_debounce:
  "(let sw = sysfs_read_int (fd_sw st) (rd_sw i);
        d = dt_ms (now i) (last_sw_time st);
        e = elapsed_ns (now i) (last_sw_time st);
        st' = encoder_tick st i
    in (sw \<noteq> last_sw st \<longrightarrow>
          last_sw st' = sw \<and> last_sw_time st' = now i \<and>
          g_button_edge st' = (if sw = 1 \<and> d > 50 then 1 else g_button_edge st)) \<and>
       (sw = last_sw st \<longrightarrow>
          last_sw st' = last_sw st \<and> last_sw_time st' = last_sw_time st \<and>
          g_button_edge st' = g_button_edge st) \<and>
       (d > 50 \<longleftrightarrow>
          (if tv_nsec (now i) < tv_nsec (last_sw_time st) then e > 50000000
           else e \<ge> 51000000)) \<and>
       (e \<ge> 51000000 \<longrightarrow> d > 50) \<and>
       (d > 50 \<longrightarrow> e > 50000000))"
  unfolding Let_def
proof (intro conjI impI)
  show "(50 < dt_ms (now i) (last_sw_time st)) =
    (if tv_nsec (now i) < tv_nsec (last_sw_time st)
     then 50000000 < elapsed_ns (now i) (last_sw_time st)
     else 51000000 \<le> elapsed_ns (now i) (last_sw_time st))"
    by (rule dt_ms_threshold)
next
  assume "51000000 \<le> elapsed_ns (now i) (last_sw_time st)"
  then show "50 < dt_ms (now i) (last_sw_time st)" by (rule dt_ms_bounds)
next
  assume "50 < dt_ms (now i) (last_sw_time st)"
  then show "50000000 < elapsed_ns (now i) (last_sw_time st)" by (rule dt_ms_exceeds)
qed (simp_all add: encoder_tick_button encoder_tick_flag registers_def)


theorem button_debounce_witness:
  "g_button_edge (encoder_tick enc0 (tick_of read0 read0 read1 0 51000000)) = 1 \<and>
   last_sw_time (encoder_tick enc0 (tick_of read0 read0 read1 0 51000000)) =
     \<lparr>tv_sec = 0, tv_nsec = 51000000\<rparr> \<and>
   g_button_edge (encoder_tick enc0 (tick_of read0 read0 read1 0 50900000)) = 0 \<and>
   g_button_edge (encoder_tick (enc0\<lparr>last_sw_time := \<lparr>tv_sec = 0, tv_nsec = 990000000\<rparr>\<rparr>)
      (tick_of read0 read0 read1 1 40900000)) = 1 \<and>
   elapsed_ns \<lparr>tv_sec = 1, tv_nsec = 40900000\<rparr> \<lparr>tv_sec = 0, tv_nsec = 990000000\<rparr> = 50900000 \<and>
   g_button_edge (encoder_tick enc0 (tick_of read0 read0 read0 9 0)) = 0 \<and>
   last_sw_time (encoder_tick enc0 (tick_of read0 read0 read0 9 0)) = \<lparr>tv_sec = 0, tv_nsec = 0\<rparr>"
proof -
  let ?late = "enc0\<lparr>last_sw_time := \<lparr>tv_sec = 0, tv_nsec = 990000000\<rparr>\<rparr>"
  have sw1: "sysfs_read_int (fd_sw enc0) (rd_sw (tick_of read0 read0 read1 s n)) = 1"
    "sysfs_read_int (fd_sw ?late) (rd_sw (tick_of read0 read0 read1 s n)) = 1" for s n
    by (simp_all add: fixture_defs)
  have sw0: "sysfs_read_int (fd_sw enc0) (rd_sw (tick_of read0 read0 read0 s n)) = 0" for s n
    by (simp add: fixture_defs)
  have d51: "dt_ms \<lparr>tv_sec = 0, tv_nsec = 51000000\<rparr> \<lparr>tv_sec = 0, tv_nsec = 0\<rparr> = 51"
    by (simp add: dt_ms_def signed_divide_int_def)
  have d50: "dt_ms \<lparr>tv_sec = 0, tv_nsec = 50900000\<rparr> \<lparr>tv_sec = 0, tv_nsec = 0\<rparr> = 50"
    by (simp add: dt_ms_def signed_divide_int_def)
  have dx: "dt_ms \<lparr>tv_sec = 1, tv_nsec = 40900000\<rparr> \<lparr>tv_sec = 0, tv_nsec = 990000000\<rparr> = 51"
    by (simp add: dt_ms_def signed_divide_int_def)
  have l: "last_sw enc0 = 0" "g_button_edge enc0 = 0"
    "last_sw_time enc0 = \<lparr>tv_sec = 0, tv_nsec = 0\<rparr>"
    "last_sw ?late = 0" "g_button_edge ?late = 0"
    "last_sw_time ?late = \<lparr>tv_sec = 0, tv_nsec = 990000000\<rparr>" by (simp_all add: enc0_def)
  have n: "now (tick_of a b c s ns) = \<lparr>tv_sec = s, tv_nsec = ns\<rparr>" for a b c s ns
    by (simp add: tick_of_def)
  have a: "g_button_edge (encoder_tick enc0 (tick_of read0 read0 read1 0 51000000)) = 1 \<and>
    last_sw_time (encoder_tick enc0 (tick_of read0 read0 read1 0 51000000)) =
       \<lparr>tv_sec = 0, tv_nsec = 51000000\<rparr>"
    using button_debounce [of enc0 "tick_of read0 read0 read1 0 51000000"]
    by (simp add: Let_def sw1 d51 l n)
  have b: "g_button_edge (encoder_tick enc0 (tick_of read0 read0 read1 0 50900000)) = 0"
    using button_debounce [of enc0 "tick_of read0 read0 read1 0 50900000"]
    by (simp add: Let_def sw1 d50 l n)
  have x: "g_button_edge (encoder_tick ?late (tick_of read0 read0 read1 1 40900000)) = 1"
    using button_debounce [of ?late "tick_of read0 read0 read1 1 40900000"]
    by (simp add: Let_def sw1 dx l n)
  have e: "elapsed_ns \<lparr>tv_sec = 1, tv_nsec = 40900000\<rparr> \<lparr>tv_sec = 0, tv_nsec = 990000000\<rparr> = 50900000"
    by (simp add: elapsed_ns_def)
  have c: "g_button_edge (encoder_tick enc0 (tick_of read0 read0 read0 9 0)) = 0 \<and>
    last_sw_time (encoder_tick enc0 (tick_of read0 read0 read0 9 0)) = \<lparr>tv_sec = 0, tv_nsec = 0\<rparr>"
    using button_debounce [of enc0 "tick_of read0 read0 read0 9 0"]
    by (simp add: Let_def sw0 l n)
  from a b x e c show ?thesis by blast
qed

text \<open>
  Claim C2 as stated has the timestamp move only when a rising edge is published. Here the
  button is down, the last change was at 5 s; the release at 6 s publishes nothing and
  moves the timestamp to 6 s, so the press at 6.02 s, 1.02 s after the last published
  edge, is measured against the release and not published.
\<close>

theorem falling_edge_moves_timestamp:
  "last_sw (enc0\<lparr>last_sw := 1, last_sw_time := \<lparr>tv_sec = 5, tv_nsec = 0\<rparr>\<rparr>) = 1 \<and>
   sysfs_read_int 5 (rd_sw (tick_of read0 read0 read0 6 0)) = 0 \<and>
   g_button_edge (encoder_tick (enc0\<lparr>last_sw := 1, last_sw_time := \<lparr>tv_sec = 5, tv_nsec = 0\<rparr>\<rparr>)
      (tick_of read0 read0 read0 6 0)) = 0 \<and>
   last_sw_time (encoder_tick (enc0\<lparr>last_sw := 1, last_sw_time := \<lparr>tv_sec = 5, tv_nsec = 0\<rparr>\<rparr>)
      (tick_of read0 read0 read0 6 0)) = \<lparr>tv_sec = 6, tv_nsec = 0\<rparr> \<and>
   g_button_edge (encoder_tick (encoder_tick
        (enc0\<lparr>last_sw := 1, last_sw_time := \<lparr>tv_sec = 5, tv_nsec = 0\<rparr>\<rparr>)
        (tick_of read0 read0 read0 6 0)) (tick_of read0 read0 read1 6 20000000)) = 0"
  by (simp add: fixture_defs encoder_tick_flag encoder_tick_button registers_def
      encoder_tick_frame dt_ms_def signed_divide_int_def)

lemma forward_code:
  assumes "last st \<in> {0, 1, 2, 3}" "quad_sample (fd_a st) (fd_b st) i = gray_next (last st)"
  shows "g_pos (encoder_tick st i) = g_pos st + 1"
proof -
  let ?s = "quad_sample (fd_a st) (fd_b st) i"
  from assms have sv: "?s \<in> {0, 1, 2, 3}" by (auto simp: gray_next_def)
  from assms sv have "transition_code (last st) ?s \<in> {0x1, 0x7, 0xE, 0x8}"
    using code_table [of "last st" ?s] by blast
  then show ?thesis by (simp add: encoder_tick_pos switch_diff_pos)
qed

text \<open>
  Claim C3, as the code has it. A read fails (returns -1) exactly when the descriptor is
  negative or \<^verbatim>\<open>read\<close> gives an error or no byte. No iteration is skipped, and its two
  halves are independent: the position after the iteration is determined by the tracked
  sample and the reads of lines A and B alone, the flag by the tracked level, the
  timestamp, the clock and the read of the button line alone. When the read of line A or
  of line B fails, the position is left as it was, and a press that qualifies still sets
  the flag. When the read of the button line fails, the flag is left as it was, and a
  forward step still adds 1 to the position. Nothing is reported: the iteration only
  returns the next state.
\<close>

theorem read_failure_effects:
  "(fd <s 0 \<or> r = ReadErr \<or> r = ReadBytes [] \<longleftrightarrow> sysfs_read_int fd r = - 1) \<and>
   g_pos (encoder_tick st i) =
     g_pos (switch_diff (transition_code (last st) (quad_sample (fd_a st) (fd_b st) i)) st) \<and>
   g_button_edge (encoder_tick st i) = (if registers st i then 1 else g_button_edge st) \<and>
   (sysfs_read_int (fd_a st) (rd_a i) = - 1 \<or> sysfs_read_int (fd_b st) (rd_b i) = - 1 \<longrightarrow>
      g_pos (encoder_tick st i) = g_pos st \<and>
      (registers st i \<longrightarrow> g_button_edge (encoder_tick st i) = 1)) \<and>
   (sysfs_read_int (fd_sw st) (rd_sw i) = - 1 \<longrightarrow>
      g_button_edge (encoder_tick st i) = g_button_edge st \<and>
      (last st \<in> {0, 1, 2, 3} \<and> quad_sample (fd_a st) (fd_b st) i = gray_next (last st) \<longrightarrow>
         g_pos (encoder_tick st i) = g_pos st + 1))"
proof (intro conjI impI)
  show "(fd <s 0 \<or> r = ReadErr \<or> r = ReadBytes []) = (sysfs_read_int fd r = - 1)"
    by (auto simp: sysfs_read_int_def split: read_result.splits list.splits)
  show "g_pos (encoder_tick st i) =
     g_pos (switch_diff (transition_code (last st) (quad_sample (fd_a st) (fd_b st) i)) st)"
    by (rule encoder_tick_pos)
  show "g_button_edge (encoder_tick st i) = (if registers st i then 1 else g_button_edge st)"
    by (rule encoder_tick_flag)
next
  assume f: "sysfs_read_int (fd_a st) (rd_a i) = - 1 \<or> sysfs_read_int (fd_b st) (rd_b i) = - 1"
  then show "g_pos (encoder_tick st i) = g_pos st" by (rule failed_read_keeps_pos)
  assume "registers st i"
  then show "g_button_edge (encoder_tick st i) = 1" by (simp add: encoder_tick_flag)
next
  assume f: "sysfs_read_int (fd_sw st) (rd_sw i) = - 1"
  then show "g_button_edge (encoder_tick st i) = g_button_edge st" by (rule failed_read_keeps_flag)
  assume "last st \<in> {0, 1, 2, 3} \<and> quad_sample (fd_a st) (fd_b st) i = gray_next (last st)"
  then show "g_pos (encoder_tick st i) = g_pos st + 1" by (intro forward_code) simp_all
qed

theorem read_failure_effects_witness:
  "sysfs_read_int 3 ReadErr = - 1 \<and>
   g_pos (encoder_tick enc0 (tick_of ReadErr read1 read0 0 0)) = 0 \<and>
   g_button_edge (encoder_tick enc0 (tick_of read0 (ReadBytes []) read1 7 0)) = 1 \<and>
   g_button_edge (encoder_tick (enc0\<lparr>g_button_edge := 1\<rparr>) (tick_of read0 read1 ReadErr 7 0)) = 1 \<and>
   g_pos (encoder_tick enc0 (tick_of read0 read1 ReadErr 7 0)) = 1"
proof -
  let ?ia = "tick_of ReadErr read1 read0 0 0"
  let ?ib = "tick_of read0 (ReadBytes []) read1 7 0"
  let ?ic = "tick_of read0 read1 ReadErr 7 0"
  let ?set = "enc0\<lparr>g_button_edge := 1\<rparr>"
  have a: "sysfs_read_int (fd_a enc0) (rd_a ?ia) = - 1 \<or> sysfs_read_int (fd_b enc0) (rd_b ?ia) = - 1"
    by (simp add: fixture_defs)
  have b: "sysfs_read_int (fd_a enc0) (rd_a ?ib) = - 1 \<or> sysfs_read_int (fd_b enc0) (rd_b ?ib) = - 1"
    by (simp add: fixture_defs)
  have rb: "registers enc0 ?ib"
    by (simp add: registers_def fixture_defs dt_ms_def signed_divide_int_def)
  have c: "sysfs_read_int (fd_sw enc0) (rd_sw ?ic) = - 1"
    "sysfs_read_int (fd_sw ?set) (rd_sw ?ic) = - 1"
    by (simp_all add: fixture_defs)
  have step: "last enc0 \<in> {0, 1, 2, 3} \<and>
      quad_sample (fd_a enc0) (fd_b enc0) ?ic = gray_next (last enc0)"
    by (simp add: fixture_defs quad_sample_def gray_next_def)
  have z: "g_pos enc0 = 0" "g_button_edge ?set = 1"
    by (simp_all add: enc0_def)
  note ta = read_failure_effects [of 3 ReadErr enc0 ?ia]
  from ta have 0: "sysfs_read_int 3 ReadErr = - 1" by blast
  from ta a have "g_pos (encoder_tick enc0 ?ia) = g_pos enc0" by blast
  then have 1: "g_pos (encoder_tick enc0 ?ia) = 0" by (simp only: z(1))
  note tb = read_failure_effects [of 3 ReadErr enc0 ?ib]
  from tb b rb have 2: "g_button_edge (encoder_tick enc0 ?ib) = 1" by blast
  note ts = read_failure_effects [of 3 ReadErr ?set ?ic]
  from ts c(2) have "g_button_edge (encoder_tick ?set ?ic) = g_button_edge ?set" by blast
  then have 3: "g_button_edge (encoder_tick ?set ?ic) = 1" by (simp only: z(2))
  note tc = read_failure_effects [of 3 ReadErr enc0 ?ic]
  from tc c(1) step have "g_pos (encoder_tick enc0 ?ic) = g_pos enc0 + 1" by blast
  then have 4: "g_pos (encoder_tick enc0 ?ic) = 1" by (simp add: z(1))
  from 0 1 2 3 4 show ?thesis by blast
qed

text \<open>
  Claim C3 as stated has an iteration with any failed read change neither the position nor
  the flag. With the button read failing, a forward step still moves the position from 0
  to 1; with the read of line A failing, a press still sets the flag.
\<close>

theorem failed_read_tick_not_skipped:
  "sysfs_read_int (fd_sw enc0) (rd_sw (tick_of read0 read1 ReadErr 7 0)) = - 1 \<and>
   g_pos enc0 = 0 \<and>
   g_pos (encoder_tick enc0 (tick_of read0 read1 ReadErr 7 0)) = 1 \<and>
   sysfs_read_int (fd_a enc0) (rd_a (tick_of ReadErr read0 read1 7 0)) = - 1 \<and>
   g_button_edge enc0 = 0 \<and>
   g_button_edge (encoder_tick enc0 (tick_of ReadErr read0 read1 7 0)) = 1"
  by (simp add: fixture_defs encoder_tick_flag encoder_tick_pos switch_diff_pos registers_def
      quad_sample_def transition_code_def dt_ms_def signed_divide_int_def)

lemma republish:
  assumes "last_sw st = 1" "sysfs_read_int (fd_sw st) (rd_sw i1) = - 1"
    "sysfs_read_int (fd_sw st) (rd_sw i2) = 1" "dt_ms (now i2) (now i1) > 50"
  shows "g_button_edge (encoder_tick (encoder_tick st i1) i2) = 1"
proof -
  let ?st = "encoder_tick st i1"
  from assms(1,2) have "last_sw ?st = - 1" "last_sw_time ?st = now i1" "fd_sw ?st = fd_sw st"
    by (simp_all add: encoder_tick_button encoder_tick_frame)
  with assms(3,4) have "registers ?st i2" by (simp add: registers_def)
  then show ?thesis by (simp add: encoder_tick_flag)
qed

lemma count_snoc_pressed: "count_list (es @ [Pressed]) Pressed = Suc (count_list es Pressed)"
  by (induction es) simp_all

text \<open>
  What the code guarantees of the press flag. \<^verbatim>\<open>rotaryEncoder_button_pressed\<close> is one
  exchange: it returns whether the flag was set and leaves it unset. Hence, in any
  interleaving of polling iterations and consumer calls, a call followed by iterations
  none of which publishes a press is followed only by calls that return false; and after
  an iteration that publishes a press, while the button stays down and every read of it
  succeeds (every iteration samples 1), the first call returns true and every later call
  returns false, however long the press lasts. A read that fails while the button is down
  stores -1 as the tracked level, so that the next read of 1 whose \<^verbatim>\<open>dt_ms\<close> since the
  failure exceeds 50 publishes a press again, and the call after it returns true.
\<close>

theorem button_edge_one_shot:
  "rotaryEncoder_button_pressed st = (g_button_edge st \<noteq> 0, st\<lparr>g_button_edge := 0\<rparr>) \<and>
   (quiet (snd (rotaryEncoder_button_pressed st)) es \<longrightarrow>
      fst (run_events st (Pressed # es @ [Pressed])) =
        (g_button_edge st \<noteq> 0) # replicate (Suc (count_list es Pressed)) False) \<and>
   (registers st i \<and> held (fd_sw st) es \<longrightarrow>
      fst (run_events st (Tick i # es)) = once (count_list es Pressed)) \<and>
   (last_sw st = 1 \<and> sysfs_read_int (fd_sw st) (rd_sw i1) = - 1 \<and>
    sysfs_read_int (fd_sw st) (rd_sw i2) = 1 \<and> dt_ms (now i2) (now i1) > 50 \<longrightarrow>
      g_button_edge (encoder_tick (encoder_tick st i1) i2) = 1 \<and>
      fst (run_events st [Pressed, Tick i1, Tick i2, Pressed]) = [g_button_edge st \<noteq> 0, True])"
proof (intro conjI impI)
  show "rotaryEncoder_button_pressed st = (g_button_edge st \<noteq> 0, st\<lparr>g_button_edge := 0\<rparr>)"
    by (simp add: rotaryEncoder_button_pressed_def)
next
  assume q: "quiet (snd (rotaryEncoder_button_pressed st)) es"
  let ?st = "st\<lparr>g_button_edge := 0\<rparr>"
  from q have "quiet ?st (es @ [Pressed])"
    by (simp add: quiet_snoc_pressed rotaryEncoder_button_pressed_def)
  then have "fst (run_events ?st (es @ [Pressed])) =
      replicate (count_list (es @ [Pressed]) Pressed) False"
    by (intro quiet_results) simp_all
  then show "fst (run_events st (Pressed # es @ [Pressed])) =
      (g_button_edge st \<noteq> 0) # replicate (Suc (count_list es Pressed)) False"
    by (simp only: run_events_results count_snoc_pressed)
next
  assume a: "registers st i \<and> held (fd_sw st) es"
  let ?st = "encoder_tick st i"
  from a have sw: "sysfs_read_int (fd_sw st) (rd_sw i) = 1" "sysfs_read_int (fd_sw st) (rd_sw i) \<noteq> last_sw st"
    by (auto simp: registers_def Let_def)
  have "fst (run_events ?st es) = once (count_list es Pressed)"
  proof (rule held_results_set)
    show "g_button_edge ?st \<noteq> 0" using a by (simp add: encoder_tick_flag)
    show "last_sw ?st = 1" using sw by (simp add: encoder_tick_button)
    show "held (fd_sw ?st) es" using a by (simp add: encoder_tick_frame)
  qed
  then show "fst (run_events st (Tick i # es)) = once (count_list es Pressed)"
    by (simp only: run_events_results)
next
  assume a: "last_sw st = 1 \<and> sysfs_read_int (fd_sw st) (rd_sw i1) = - 1 \<and>
    sysfs_read_int (fd_sw st) (rd_sw i2) = 1 \<and> dt_ms (now i2) (now i1) > 50"
  then show 1: "g_button_edge (encoder_tick (encoder_tick st i1) i2) = 1"
    by (intro republish) simp_all
  let ?st = "st\<lparr>g_button_edge := 0\<rparr>"
  from a have "g_button_edge (encoder_tick (encoder_tick ?st i1) i2) = 1"
    by (intro republish) simp_all
  then show "fst (run_events st [Pressed, Tick i1, Tick i2, Pressed]) = [g_button_edge st \<noteq> 0, True]"
    by (simp del: run_events.simps add: run_events_results)
qed

theorem button_edge_one_shot_witness:
  "fst (run_events (enc0\<lparr>g_button_edge := 1\<rparr>)
     [Pressed, Tick (tick_of read0 read0 read0 1 0), Pressed, Pressed]) = [True, False, False] \<and>
   fst (run_events enc0
     [Tick (tick_of read0 read0 read1 1 0), Tick (tick_of read0 read0 read1 1 1000000),
      Pressed, Tick (tick_of read0 read0 read1 9 0), Pressed, Pressed]) = [True, False, False] \<and>
   fst (run_events (enc0\<lparr>last_sw := 1, g_button_edge := 1\<rparr>)
     [Pressed, Tick (tick_of read0 read0 ReadErr 2 0),
      Tick (tick_of read0 read0 read1 2 60000000), Pressed]) = [True, True]"
proof -
  let ?st = "enc0\<lparr>g_button_edge := 1\<rparr>"
  let ?es = "[Tick (tick_of read0 read0 read0 1 0), Pressed]"
  let ?hs = "[Tick (tick_of read0 read0 read1 1 1000000),
      Pressed, Tick (tick_of read0 read0 read1 9 0), Pressed, Pressed]"
  let ?dn = "enc0\<lparr>last_sw := 1, g_button_edge := 1\<rparr>"
  let ?i1 = "tick_of read0 read0 ReadErr 2 0"
  let ?i2 = "tick_of read0 read0 read1 2 60000000"
  have q: "quiet (snd (rotaryEncoder_button_pressed ?st)) ?es"
    by (simp add: rotaryEncoder_button_pressed_def registers_def fixture_defs)
  have r: "registers enc0 (tick_of read0 read0 read1 1 0) \<and> held (fd_sw enc0) ?hs"
    by (simp add: registers_def fixture_defs dt_ms_def signed_divide_int_def)
  have f: "last_sw ?dn = 1 \<and> sysfs_read_int (fd_sw ?dn) (rd_sw ?i1) = - 1 \<and>
    sysfs_read_int (fd_sw ?dn) (rd_sw ?i2) = 1 \<and> dt_ms (now ?i2) (now ?i1) > 50"
    by (simp add: fixture_defs dt_ms_def signed_divide_int_def)
  have 1: "fst (run_events ?st (Pressed # ?es @ [Pressed])) = [True, False, False]"
    using button_edge_one_shot [of ?st ?es] q by (simp del: run_events.simps add: enc0_def)
  have 2: "fst (run_events enc0 (Tick (tick_of read0 read0 read1 1 0) # ?hs)) = [True, False, False]"
    using button_edge_one_shot [of enc0 ?hs "tick_of read0 read0 read1 1 0"] r
    by (simp del: run_events.simps add: once_def)
  note t = button_edge_one_shot [of ?dn "[]" ?i1 ?i1 ?i2, THEN conjunct2, THEN conjunct2,
      THEN conjunct2, rule_format, OF f, THEN conjunct2]
  then have 3: "fst (run_events ?dn [Pressed, Tick ?i1, Tick ?i2, Pressed]) = [True, True]"
    by (simp del: run_events.simps add: enc0_def)
  from 1 2 3 show ?thesis by simp
qed

text \<open>
  Claim C4 has a press that is held for any duration without a release reported exactly
  once. The code does not keep to it when a read of the button line fails. Here the button
  goes down at 1 s and stays down: the press is published and the first call reports it;
  the read at 2 s fails, the read at 2.06 s gives 1 again, and the second call reports a
  press although the button was never released. The source announces the flag as set on
  a debounced rising edge and the call as returning true once per debounced press.
\<close>

theorem held_press_reported_twice:
  "fst (run_events enc0
     [Tick (tick_of read0 read0 read1 1 0),
      Pressed,
      Tick (tick_of read0 read0 ReadErr 2 0),
      Tick (tick_of read0 read0 read1 2 60000000),
      Pressed]) = [True, True] \<and>
   sysfs_read_int (fd_sw enc0) (rd_sw (tick_of read0 read0 read1 1 0)) = 1 \<and>
   sysfs_read_int (fd_sw enc0) (rd_sw (tick_of read0 read0 ReadErr 2 0)) = - 1 \<and>
   sysfs_read_int (fd_sw enc0) (rd_sw (tick_of read0 read0 read1 2 60000000)) = 1"
  by (simp del: run_events.simps
      add: run_events_results fixture_defs encoder_tick_flag encoder_tick_button
      registers_def encoder_tick_frame dt_ms_def signed_divide_int_def)


section \<open>The servo\<close>

lemma clamp_id: "lo \<le> v \<Longrightarrow> v \<le> hi \<Longrightarrow> clamp v lo hi = v"
  by (simp add: clamp_def)

lemma percent_le_span:
  assumes "0 \<le> d" "0 \<le> pct" "pct \<le> 100"
  shows "0 \<le> (d * pct) div 100" "(d * pct) div 100 \<le> (d::int)"
proof -
  from assms show "0 \<le> (d * pct) div 100" by (simp add: pos_imp_zdiv_nonneg_iff)
  from assms have "d * pct \<le> d * 100" by (intro mult_left_mono) simp_all
  then have "(d * pct) div 100 \<le> (d * 100) div 100" by (rule zdiv_mono1) simp
  then show "(d * pct) div 100 \<le> d" by simp
qed

lemma wrap_int_id: "fits_int v \<Longrightarrow> wrap_int v = v"
  by (simp add: wrap_int_def fits_int_def)

lemma sdiv_nonneg: "0 \<le> (x::int) \<Longrightarrow> x sdiv 100 = x div 100"
  by (simp add: signed_divide_int_def sgn_if)

lemma pct_to_ns_fits:
  assumes "span_fits s"
  shows "pct_to_ns s pct dir =
     (if dir \<ge> 0 then neutral_ns s + (\<bar>max_ns s - neutral_ns s\<bar> * clamp pct 0 100) div 100
      else neutral_ns s - (\<bar>max_ns s - neutral_ns s\<bar> * clamp pct 0 100) div 100)"
proof -
  let ?d = "\<bar>max_ns s - neutral_ns s\<bar>"
  let ?p = "clamp pct 0 100"
  let ?delta = "(?d * ?p) div 100"
  from assms have h: "?d * 100 < 2 ^ 31" "fits_int (neutral_ns s - ?d)" "fits_int (neutral_ns s + ?d)"
    by (simp_all add: span_fits_def)
  have d0: "0 \<le> ?d" by simp
  have p: "0 \<le> ?p" "?p \<le> 100" by (simp_all add: clamp_def)
  from h(1) have dl: "?d < 2 ^ 31" by simp
  then have "fits_int (max_ns s - neutral_ns s)" "fits_int (- (max_ns s - neutral_ns s))"
    by (simp_all add: fits_int_def abs_if split: if_splits)
  then have w1: "wrap_int (max_ns s - neutral_ns s) = max_ns s - neutral_ns s"
    "wrap_int (- (max_ns s - neutral_ns s)) = - (max_ns s - neutral_ns s)"
    by (simp_all only: wrap_int_id)
  have sp: "(if max_ns s - neutral_ns s < 0 then - (max_ns s - neutral_ns s)
            else max_ns s - neutral_ns s) = ?d"
    by (simp add: abs_if)
  have "?d * ?p \<le> ?d * 100" using d0 p by (intro mult_left_mono) simp_all
  moreover have m0: "0 \<le> ?d * ?p" using d0 p by simp
  ultimately have "fits_int (?d * ?p)" using h(1) by (simp add: fits_int_def)
  then have w2: "wrap_int (?d * ?p) = ?d * ?p" by (rule wrap_int_id)
  have w3: "(?d * ?p) sdiv 100 = ?delta" using m0 by (rule sdiv_nonneg)
  note b = percent_le_span [OF d0 p]
  from b h(2,3) have "fits_int (neutral_ns s + ?delta)" "fits_int (neutral_ns s - ?delta)"
    by (simp_all add: fits_int_def)
  then have w4: "wrap_int (neutral_ns s + ?delta) = neutral_ns s + ?delta"
    "wrap_int (neutral_ns s - ?delta) = neutral_ns s - ?delta"
    by (simp_all only: wrap_int_id)
  show ?thesis
    unfolding pct_to_ns_def Let_def w1 sp w2 w3 w4 by simp
qed

lemma servo_left_enabled:
  "enabled s \<Longrightarrow> span_fits s \<Longrightarrow> servo_left os s pct w =
     write_int os (base s @ ''/duty_cycle'')
       (clamp (neutral_ns s - (\<bar>max_ns s - neutral_ns s\<bar> * clamp pct 0 100) div 100)
          (min_ns s) (max_ns s)) w"
  by (simp add: servo_left_def servo_set_pulse_ns_def pct_to_ns_fits Let_def)

lemma servo_right_enabled:
  "enabled s \<Longrightarrow> span_fits s \<Longrightarrow> servo_right os s pct w =
     write_int os (base s @ ''/duty_cycle'')
       (clamp (neutral_ns s + (\<bar>max_ns s - neutral_ns s\<bar> * clamp pct 0 100) div 100)
          (min_ns s) (max_ns s)) w"
  by (simp add: servo_right_def servo_set_pulse_ns_def pct_to_ns_fits Let_def)

text \<open>
  Claim C8, as the code has it, for a servo whose span is small enough for the 32-bit
  arithmetic of \<^verbatim>\<open>pct_to_ns\<close> not to overflow (the span times 100 and
  \<^verbatim>\<open>neutral_ns\<close> \<open>\<plusminus>\<close> span fit an \<^verbatim>\<open>int\<close>: a span of at most 21,474,836 ns).
  On such a servo, when it is enabled, \<^verbatim>\<open>servo_left\<close> and
  \<^verbatim>\<open>servo_right\<close> take the percentage limited to 0..100 of one and the same span, the
  distance from \<^verbatim>\<open>neutral_ns\<close> to \<^verbatim>\<open>max_ns\<close>, subtract it from or add it to
  \<^verbatim>\<open>neutral_ns\<close>, limit the result to [\<^verbatim>\<open>min_ns\<close>, \<^verbatim>\<open>max_ns\<close>] and write it in one
  write of the duty attribute; \<^verbatim>\<open>servo_stop\<close> is \<^verbatim>\<open>servo_set_pulse_ns\<close> of
  \<^verbatim>\<open>neutral_ns\<close>. For a percentage in 0..100 and \<^verbatim>\<open>min_ns\<close> \<open>\<le>\<close> \<^verbatim>\<open>neutral_ns\<close>
  \<open>\<le>\<close> \<^verbatim>\<open>max_ns\<close>, right writes neutral plus that percentage (integer division) of
  the span up to max, and, when the bounds are symmetric about neutral, left writes
  neutral minus that percentage of the span down to min. On the bounds 1,600,000 /
  1,200,000 / 2,000,000, left(100) writes 1,200,000.
\<close>

theorem servo_motion_pulse:
  assumes "enabled s" "span_fits s"
  shows "servo_left os s pct w =
           write_int os (base s @ ''/duty_cycle'')
             (clamp (neutral_ns s - (\<bar>max_ns s - neutral_ns s\<bar> * clamp pct 0 100) div 100)
                (min_ns s) (max_ns s)) w \<and>
         servo_right os s pct w =
           write_int os (base s @ ''/duty_cycle'')
             (clamp (neutral_ns s + (\<bar>max_ns s - neutral_ns s\<bar> * clamp pct 0 100) div 100)
                (min_ns s) (max_ns s)) w \<and>
         servo_stop os s w = servo_set_pulse_ns os s (neutral_ns s) w \<and>
         (0 \<le> pct \<and> pct \<le> 100 \<and> min_ns s \<le> neutral_ns s \<and> neutral_ns s \<le> max_ns s \<longrightarrow>
            servo_right os s pct w =
              write_int os (base s @ ''/duty_cycle'')
                (neutral_ns s + ((max_ns s - neutral_ns s) * pct) div 100) w \<and>
            (max_ns s - neutral_ns s = neutral_ns s - min_ns s \<longrightarrow>
               servo_left os s pct w =
                 write_int os (base s @ ''/duty_cycle'')
                   (neutral_ns s - ((neutral_ns s - min_ns s) * pct) div 100) w)) \<and>
         (neutral_ns s = 1600000 \<and> min_ns s = 1200000 \<and> max_ns s = 2000000 \<longrightarrow>
            servo_left os s 100 w = write_int os (base s @ ''/duty_cycle'') 1200000 w)"
proof (intro conjI impI)
  show "servo_stop os s w = servo_set_pulse_ns os s (neutral_ns s) w"
    by (simp add: servo_stop_def)
next
  assume a: "0 \<le> pct \<and> pct \<le> 100 \<and> min_ns s \<le> neutral_ns s \<and> neutral_ns s \<le> max_ns s"
  then have sp: "0 \<le> max_ns s - neutral_ns s" by simp
  note b = percent_le_span [OF sp, of pct]
  from a b show "servo_right os s pct w =
      write_int os (base s @ ''/duty_cycle'')
        (neutral_ns s + ((max_ns s - neutral_ns s) * pct) div 100) w"
    by (simp add: servo_right_enabled [OF assms] clamp_id)
  assume sym: "max_ns s - neutral_ns s = neutral_ns s - min_ns s"
  from a b sym show "servo_left os s pct w =
      write_int os (base s @ ''/duty_cycle'')
        (neutral_ns s - ((neutral_ns s - min_ns s) * pct) div 100) w"
    by (simp add: servo_left_enabled [OF assms] clamp_id)
next
  assume "neutral_ns s = 1600000 \<and> min_ns s = 1200000 \<and> max_ns s = 2000000"
  then show "servo_left os s 100 w = write_int os (base s @ ''/duty_cycle'') 1200000 w"
    by (simp add: servo_left_enabled [OF assms] clamp_def)
qed (simp_all add: servo_left_enabled servo_right_enabled assms)

theorem servo_motion_pulse_witness:
  "servo_left (os_scripted True None) servo0 100 (world_of []) =
     (0, \<lparr>hw = [], trace = [EvWrite ''/sys/class/pwm/pwmchip0/pwm0/duty_cycle'' ''1200000'' 0]\<rparr>) \<and>
   servo_right (os_scripted True None) servo0 50 (world_of []) =
     (0, \<lparr>hw = [], trace = [EvWrite ''/sys/class/pwm/pwmchip0/pwm0/duty_cycle'' ''1800000'' 0]\<rparr>) \<and>
   servo_left (os_scripted True None) servo0 25 (world_of [False]) =
     (- 22, \<lparr>hw = [], trace = [EvWrite ''/sys/class/pwm/pwmchip0/pwm0/duty_cycle'' ''1500000'' (- 22)]\<rparr>)"
proof -
  let ?os = "os_scripted True None"
  have e: "enabled servo0" by (simp add: servo0_def)
  have sf: "span_fits servo0" by (simp add: span_fits_def fits_int_def servo0_def)
  have w: "write_int ?os (base servo0 @ ''/duty_cycle'') v (world_of h) =
      ((case h of [] \<Rightarrow> 0 | b # bs \<Rightarrow> if b then 0 else - 22),
       \<lparr>hw = tl h, trace = [EvWrite ''/sys/class/pwm/pwmchip0/pwm0/duty_cycle'' (lld v)
          (case h of [] \<Rightarrow> 0 | b # bs \<Rightarrow> if b then 0 else - 22)]\<rparr>)" for v h
    by (cases h) (simp_all add: write_int_def servo_write_str_def os_scripted_def world_of_def
        servo0_def)
  have scenario: "neutral_ns servo0 = 1600000 \<and> min_ns servo0 = 1200000 \<and> max_ns servo0 = 2000000"
    by (simp add: servo0_def)
  have r50: "(0::int) \<le> 50 \<and> (50::int) \<le> 100 \<and> min_ns servo0 \<le> neutral_ns servo0 \<and>
      neutral_ns servo0 \<le> max_ns servo0"
    and r25: "(0::int) \<le> 25 \<and> (25::int) \<le> 100 \<and> min_ns servo0 \<le> neutral_ns servo0 \<and>
      neutral_ns servo0 \<le> max_ns servo0"
    by (simp_all add: servo0_def)
  have sym: "max_ns servo0 - neutral_ns servo0 = neutral_ns servo0 - min_ns servo0"
    by (simp add: servo0_def)
  have v2: "neutral_ns servo0 + ((max_ns servo0 - neutral_ns servo0) * 50) div 100 = 1800000"
    by (simp add: servo0_def)
  have v3: "neutral_ns servo0 - ((neutral_ns servo0 - min_ns servo0) * 25) div 100 = 1500000"
    by (simp add: servo0_def)
  have l: "lld 1200000 = ''1200000''" "lld 1800000 = ''1800000''" "lld 1500000 = ''1500000''"
    by (simp_all add: lld_def dec_digits.simps)
  note t1 = servo_motion_pulse [OF e sf, of ?os 100 "world_of []"]
  from t1 scenario have "servo_left ?os servo0 100 (world_of []) =
      write_int ?os (base servo0 @ ''/duty_cycle'') 1200000 (world_of [])" by blast
  then have 1: "servo_left ?os servo0 100 (world_of []) =
     (0, \<lparr>hw = [], trace = [EvWrite ''/sys/class/pwm/pwmchip0/pwm0/duty_cycle'' ''1200000'' 0]\<rparr>)"
    by (simp add: w l)
  note t2 = servo_motion_pulse [OF e sf, of ?os 50 "world_of []"]
  from t2 r50 have "servo_right ?os servo0 50 (world_of []) =
      write_int ?os (base servo0 @ ''/duty_cycle'')
        (neutral_ns servo0 + ((max_ns servo0 - neutral_ns servo0) * 50) div 100) (world_of [])"
    by blast
  then have 2: "servo_right ?os servo0 50 (world_of []) =
     (0, \<lparr>hw = [], trace = [EvWrite ''/sys/class/pwm/pwmchip0/pwm0/duty_cycle'' ''1800000'' 0]\<rparr>)"
    unfolding v2 by (simp add: w l)
  note t3 = servo_motion_pulse [OF e sf, of ?os 25 "world_of [False]"]
  from t3 r25 sym have "servo_left ?os servo0 25 (world_of [False]) =
      write_int ?os (base servo0 @ ''/duty_cycle'')
        (neutral_ns servo0 - ((neutral_ns servo0 - min_ns servo0) * 25) div 100) (world_of [False])"
    by blast
  then have 3: "servo_left ?os servo0 25 (world_of [False]) =
     (- 22, \<lparr>hw = [], trace = [EvWrite ''/sys/class/pwm/pwmchip0/pwm0/duty_cycle'' ''1500000'' (- 22)]\<rparr>)"
    unfolding v3 by (simp add: w l)
  from 1 2 3 show ?thesis by blast
qed

text \<open>
  Claim C8 as stated has left(pct) use the span from neutral down to min. On the bounds
  neutral 1,500,000, min 1,000,000, max 1,800,000 that gives 1,000,000 for left(100);
  the code writes 1,200,000, neutral minus the span up to max.
\<close>

theorem servo_left_uses_max_span:
  "servo_left (os_scripted True None)
      (servo0\<lparr>neutral_ns := 1500000, min_ns := 1000000, max_ns := 1800000\<rparr>) 100 (world_of []) =
     (0, \<lparr>hw = [], trace = [EvWrite ''/sys/class/pwm/pwmchip0/pwm0/duty_cycle'' ''1200000'' 0]\<rparr>) \<and>
   1500000 - (100 * (1500000 - 1000000)) div 100 = (1000000::int) \<and>
   lld 1000000 = ''1000000''"
proof -
  let ?s = "servo0\<lparr>neutral_ns := 1500000, min_ns := 1000000, max_ns := 1800000\<rparr>"
  have w: "wrap_int 300000 = 300000" "wrap_int 30000000 = 30000000" "wrap_int 1200000 = 1200000"
    by (simp_all add: wrap_int_def)
  have p: "pct_to_ns ?s 100 (- 1) = 1200000"
    by (simp add: pct_to_ns_def clamp_def servo0_def w sdiv_nonneg)
  have l: "lld 1200000 = ''1200000''" "lld 1000000 = ''1000000''"
    by (simp_all add: lld_def dec_digits.simps)
  have f: "enabled ?s" "base ?s = ''/sys/class/pwm/pwmchip0/pwm0''" "min_ns ?s = 1000000"
    "max_ns ?s = 1800000"
    by (simp_all add: servo0_def)
  have "servo_left (os_scripted True None) ?s 100 (world_of []) =
     (0, \<lparr>hw = [], trace = [EvWrite ''/sys/class/pwm/pwmchip0/pwm0/duty_cycle'' ''1200000'' 0]\<rparr>)"
    by (simp add: servo_left_def servo_set_pulse_ns_def p f clamp_def
      write_int_def servo_write_str_def os_scripted_def world_of_def l)
  with l show ?thesis by simp
qed

text \<open>
  Outside that range the product \<^verbatim>\<open>span * pct\<close> wraps around. With neutral 1,000,000,
  min 500,000 and max 31,000,000 the span is 30,000,000; for right(100) the product
  3,000,000,000 becomes -1,294,967,296, \<^verbatim>\<open>pct_to_ns\<close> returns -11,949,672 and the
  limit to [\<^verbatim>\<open>min_ns\<close>, \<^verbatim>\<open>max_ns\<close>] makes it 500,000.
\<close>

lemma servo_right_wraps:
  "pct_to_ns (servo0\<lparr>neutral_ns := 1000000, min_ns := 500000, max_ns := 31000000\<rparr>) 100 1 =
     - 11949672 \<and>
   servo_right (os_scripted True None)
      (servo0\<lparr>neutral_ns := 1000000, min_ns := 500000, max_ns := 31000000\<rparr>) 100 (world_of []) =
     (0, \<lparr>hw = [], trace = [EvWrite ''/sys/class/pwm/pwmchip0/pwm0/duty_cycle'' ''500000'' 0]\<rparr>) \<and>
   \<not> span_fits (servo0\<lparr>neutral_ns := 1000000, min_ns := 500000, max_ns := 31000000\<rparr>)"
proof -
  let ?s = "servo0\<lparr>neutral_ns := 1000000, min_ns := 500000, max_ns := 31000000\<rparr>"
  have w: "wrap_int 30000000 = 30000000" "wrap_int 3000000000 = - 1294967296"
    "wrap_int (- 11949672) = - 11949672"
    by (simp_all add: wrap_int_def)
  have d: "(- 1294967296) sdiv 100 = (- 12949672::int)"
    by (simp add: signed_divide_int_def)
  have p: "pct_to_ns ?s 100 1 = - 11949672"
    by (simp add: pct_to_ns_def clamp_def servo0_def w d)
  have l: "lld 500000 = ''500000''"
    by (simp add: lld_def dec_digits.simps)
  have f: "enabled ?s" "base ?s = ''/sys/class/pwm/pwmchip0/pwm0''" "min_ns ?s = 500000"
    "max_ns ?s = 31000000"
    by (simp_all add: servo0_def)
  have r: "servo_right (os_scripted True None) ?s 100 (world_of []) =
     (0, \<lparr>hw = [], trace = [EvWrite ''/sys/class/pwm/pwmchip0/pwm0/duty_cycle'' ''500000'' 0]\<rparr>)"
    by (simp add: servo_right_def servo_set_pulse_ns_def p f clamp_def
      write_int_def servo_write_str_def os_scripted_def world_of_def l)
  have n: "\<not> span_fits ?s" by (simp add: span_fits_def servo0_def)
  from p r n show ?thesis by blast
qed


text \<open>
  Claim C9. On a servo that is not enabled, \<^verbatim>\<open>servo_set_pulse_ns\<close>, \<^verbatim>\<open>servo_left\<close>,
  \<^verbatim>\<open>servo_right\<close> and \<^verbatim>\<open>servo_stop\<close> return \<^verbatim>\<open>-EIO\<close>, a negative number, and
  leave the world as it was: no system call is made and nothing is written. A servo is
  not enabled after \<^verbatim>\<open>servo_close\<close>, and after \<^verbatim>\<open>servo_init\<close> it is enabled exactly
  when \<^verbatim>\<open>servo_init\<close> returned 0.
\<close>

theorem servo_disabled_rejects:
  "(\<not> enabled s \<longrightarrow>
      servo_set_pulse_ns os s d w = (- EIO, w) \<and> servo_left os s pct w = (- EIO, w) \<and>
      servo_right os s pct w = (- EIO, w) \<and> servo_stop os s w = (- EIO, w)) \<and>
   \<not> enabled (fst (snd (servo_close os s w))) \<and>
   (enabled (fst (snd (servo_init os chp chn per neu mn mx w))) \<longleftrightarrow>
      fst (servo_init os chp chn per neu mn mx w) = 0) \<and>
   - EIO < 0"
proof (intro conjI impI)
  show "enabled (fst (snd (servo_init os chp chn per neu mn mx w))) \<longleftrightarrow>
      fst (servo_init os chp chn per neu mn mx w) = 0"
  unfolding servo_init_def
  by (simp only: Let_def split: prod.split if_split) simp
  show "\<not> enabled (fst (snd (servo_close os s w)))"
    by (simp add: servo_close_def Let_def)
  show "- EIO < 0" by (simp add: EIO_def)
next
  assume "\<not> enabled s"
  then show "servo_set_pulse_ns os s d w = (- EIO, w)" "servo_left os s pct w = (- EIO, w)"
     "servo_right os s pct w = (- EIO, w)" "servo_stop os s w = (- EIO, w)"
    by (simp_all add: servo_set_pulse_ns_def servo_left_def servo_right_def servo_stop_def)
qed

theorem servo_disabled_rejects_witness:
  "servo_left (os_scripted True None) (servo0\<lparr>enabled := False\<rparr>) 100 (world_of []) =
     (- 5, world_of []) \<and>
   servo_stop (os_scripted True None)
     (fst (snd (servo_close (os_scripted True None) servo0 (world_of [])))) (world_of [True]) =
     (- 5, world_of [True])"
proof -
  have d: "\<not> enabled (servo0\<lparr>enabled := False\<rparr>)" by simp
  note t1 = servo_disabled_rejects [of "servo0\<lparr>enabled := False\<rparr>" "os_scripted True None" 0
        "world_of []" 100 0 0 0 0 0 0, THEN conjunct1, rule_format, OF d]
  then have 1: "servo_left (os_scripted True None) (servo0\<lparr>enabled := False\<rparr>) 100 (world_of []) =
     (- 5, world_of [])"
    by (simp only: EIO_def)
  let ?s = "fst (snd (servo_close (os_scripted True None) servo0 (world_of [])))"
  note c = servo_disabled_rejects [of servo0 "os_scripted True None" 0 "world_of []" 0 0 0 0 0 0 0,
      THEN conjunct2, THEN conjunct1]
  note t2 = servo_disabled_rejects [of ?s "os_scripted True None" 0 "world_of [True]" 100 0 0 0 0 0 0,
      THEN conjunct1, rule_format, OF c]
  then have 2: "servo_stop (os_scripted True None) ?s (world_of [True]) = (- 5, world_of [True])"
    by (simp only: EIO_def)
  from 1 2 show ?thesis by (rule conjI)
qed

section \<open>Rounding to a double\<close>

text \<open>
  \<open>expo\<close> is the binary exponent: the number lies between that power of two and the
  next. The rounding error of \<open>to_double\<close> is therefore at most half a spacing: a relative error of at most \<open>2\<^sup>-\<^sup>5\<^sup>3\<close> above
  the subnormal range. Integers below \<open>2\<^sup>5\<^sup>3\<close> in magnitude are doubles.
\<close>

lemma bit_length_bounds:
  "0 < n \<Longrightarrow> 2 ^ (bit_length n - 1) \<le> n \<and> n < 2 ^ bit_length n"
proof (induction n rule: bit_length.induct)
  case (1 n)
  show ?case
  proof (cases "n div 2 = 0")
    case True
    with 1(2) have "n = 1" by presburger
    then show ?thesis by (simp add: bit_length.simps)
  next
    case False
    then have p: "0 < n div 2" by simp
    from 1(1) [OF _ p] 1(2)
    have ih: "2 ^ (bit_length (n div 2) - 1) \<le> n div 2" "n div 2 < 2 ^ bit_length (n div 2)"
      by simp_all
    have bl: "bit_length n = Suc (bit_length (n div 2))"
      using 1(2) by (subst bit_length.simps) simp
    have pos: "0 < bit_length (n div 2)"
      using p by (subst bit_length.simps) simp
    then have e: "(2::nat) ^ bit_length (n div 2) = 2 * 2 ^ (bit_length (n div 2) - 1)"
      by (cases "bit_length (n div 2)") simp_all
    from ih e show ?thesis unfolding bl by simp linarith
  qed
qed

lemma pow2_pos: "0 < pow2 e"
  by (simp add: pow2_def)

lemma pow2_powr: "pow2 e = 2 powr real_of_int e"
proof (cases "0 \<le> e")
  case True
  then show ?thesis by (simp add: pow2_def powr_realpow [symmetric])
next
  case False
  then have r: "real_of_int e = - real (nat (- e))" by simp
  have "2 powr real_of_int e = 1 / 2 powr real (nat (- e))"
    unfolding r by (rule powr_minus_divide)
  also have "\<dots> = 1 / 2 ^ nat (- e)" by (simp only: powr_realpow zero_less_numeral)
  finally show ?thesis using False by (simp add: pow2_def)
qed

lemma pow2_diff: "pow2 (e - k) = pow2 e / pow2 k"
  by (simp add: pow2_powr powr_diff)

lemma pow2_52: "pow2 52 = 2 ^ 52"
  by (simp add: pow2_def)

lemma real_nat_pred: "2 \<le> (c::int) \<Longrightarrow> real_of_int c = real (nat (c - 1)) + 1"
  by simp

lemma expo_le:
  assumes "x \<noteq> 0"
  shows "pow2 (expo x) \<le> \<bar>x\<bar>"
proof (cases "1 \<le> \<bar>x\<bar>")
  case True
  let ?n = "nat \<lfloor>\<bar>x\<bar>\<rfloor>"
  from True have n: "0 < ?n" by simp
  from bit_length_bounds [OF n] have b: "2 ^ (bit_length ?n - 1) \<le> ?n" by simp
  have bp: "0 < bit_length ?n" using n by (subst bit_length.simps) simp
  from True bp have "pow2 (expo x) = 2 ^ (bit_length ?n - 1)"
    by (simp add: expo_def pow2_def nat_diff_distrib')
  also have "\<dots> = real (2 ^ (bit_length ?n - 1))" by simp
  also have "\<dots> \<le> real ?n" using b by (rule iffD2 [OF of_nat_le_iff])
  also have "\<dots> \<le> \<bar>x\<bar>" using True by simp
  finally show ?thesis .
next
  case False
  let ?y = "1 / \<bar>x\<bar>"
  let ?m = "nat (\<lceil>?y\<rceil> - 1)"
  from False assms have y: "1 < ?y" by simp
  then have c: "2 \<le> \<lceil>?y\<rceil>" by linarith
  then have m: "0 < ?m" by simp
  from bit_length_bounds [OF m] have b: "?m < 2 ^ bit_length ?m" by simp
  have bp: "0 < bit_length ?m" using m by (subst bit_length.simps) simp
  have "?y \<le> real_of_int \<lceil>?y\<rceil>" by (rule le_of_int_ceiling)
  also have "\<dots> = real ?m + 1" using c by (rule real_nat_pred)
  also have "\<dots> \<le> real (2 ^ bit_length ?m)" using b by linarith
  finally have "?y \<le> 2 ^ bit_length ?m" by simp
  then have "1 / 2 ^ bit_length ?m \<le> \<bar>x\<bar>"
    using assms by (simp add: field_simps)
  moreover from False bp have "pow2 (expo x) = 1 / 2 ^ bit_length ?m"
    by (simp add: expo_def pow2_def)
  ultimately show ?thesis by simp
qed

lemma expo_upper:
  assumes "x \<noteq> 0"
  shows "\<bar>x\<bar> < pow2 (expo x + 1)"
proof (cases "1 \<le> \<bar>x\<bar>")
  case True
  let ?n = "nat \<lfloor>\<bar>x\<bar>\<rfloor>"
  from True have n: "0 < ?n" by simp
  from bit_length_bounds [OF n] have b: "?n < 2 ^ bit_length ?n" by simp
  have "\<bar>x\<bar> < real_of_int \<lfloor>\<bar>x\<bar>\<rfloor> + 1" by linarith
  also have "\<dots> = real ?n + 1" using True by simp
  also have "\<dots> \<le> real (2 ^ bit_length ?n)" using b by linarith
  also have "\<dots> = pow2 (expo x + 1)" using True by (simp add: expo_def pow2_def)
  finally show ?thesis .
next
  case False
  let ?y = "1 / \<bar>x\<bar>"
  let ?m = "nat (\<lceil>?y\<rceil> - 1)"
  let ?k = "bit_length ?m"
  from False assms have y: "1 < ?y" by simp
  then have c: "2 \<le> \<lceil>?y\<rceil>" by linarith
  then have m: "0 < ?m" by simp
  from bit_length_bounds [OF m] have b: "2 ^ (?k - 1) \<le> ?m" by simp
  have kp: "0 < ?k" using m by (subst bit_length.simps) simp
  have "real (2 ^ (?k - 1)) \<le> real ?m" using b by (rule iffD2 [OF of_nat_le_iff])
  also have "real ?m = real_of_int \<lceil>?y\<rceil> - 1" using real_nat_pred [OF c] by simp
  also have "\<dots> < ?y" by linarith
  finally have "2 ^ (?k - 1) < ?y" by simp
  then have lt: "\<bar>x\<bar> < 1 / 2 ^ (?k - 1)"
    using assms by (simp add: field_simps)
  have "pow2 (expo x + 1) = 1 / 2 ^ (?k - 1)"
  proof (cases "?k = 1")
    case True
    with False show ?thesis by (simp add: expo_def pow2_def)
  next
    case k: False
    with kp have "- int ?k + 1 < 0" "nat (- (- int ?k + 1)) = ?k - 1" by linarith+
    with False show ?thesis by (simp add: expo_def pow2_def)
  qed
  with lt show ?thesis by simp
qed


lemma round_even_error: "\<bar>real_of_int (round_even y) - y\<bar> \<le> 1 / 2"
  unfolding round_even_def Let_def by (simp add: abs_if) linarith

lemma to_double_error:
  assumes "pow2 (- 1022) \<le> \<bar>x\<bar>"
  shows "\<bar>to_double x - x\<bar> \<le> \<bar>x\<bar> / 2 ^ 53"
proof -
  from assms pow2_pos [of "- 1022"] have nz: "x \<noteq> 0" by auto
  let ?e = "max (expo x) (- 1022)"
  let ?u = "pow2 (?e - 52)"
  have up: "0 < ?u" by (rule pow2_pos)
  have "pow2 ?e \<le> \<bar>x\<bar>"
    using expo_le [OF nz] assms by (simp add: max_def)
  then have u: "?u \<le> \<bar>x\<bar> / 2 ^ 52"
    by (simp add: pow2_diff pow2_52 divide_right_mono)
  have "to_double x - x = (real_of_int (round_even (x / ?u)) - x / ?u) * ?u"
    using nz up by (simp add: to_double_def Let_def field_simps)
  then have "\<bar>to_double x - x\<bar> = \<bar>real_of_int (round_even (x / ?u)) - x / ?u\<bar> * ?u"
    using up by (simp add: abs_mult)
  also have "\<dots> \<le> 1 / 2 * ?u"
    using round_even_error up by (intro mult_right_mono) simp_all
  also have "\<dots> \<le> 1 / 2 * (\<bar>x\<bar> / 2 ^ 52)"
    using u by (intro mult_left_mono) simp_all
  finally show ?thesis by simp
qed

lemma round_even_int: "round_even (real_of_int n) = n"
  by (simp add: round_even_def)

lemma bit_length_le:
  assumes "0 < n" "n < 2 ^ k"
  shows "bit_length n \<le> k"
proof -
  from bit_length_bounds [OF assms(1)] assms(2)
  have "(2::nat) ^ (bit_length n - 1) < 2 ^ k" by linarith
  then have "bit_length n - 1 < k" by simp
  then show ?thesis by linarith
qed

lemma to_double_int:
  assumes "\<bar>k\<bar> < 2 ^ 53"
  shows "to_double (real_of_int k) = real_of_int k"
proof (cases "k = 0")
  case True
  then show ?thesis by (simp add: to_double_def)
next
  case False
  let ?n = "nat \<bar>k\<bar>"
  let ?b = "bit_length ?n"
  from False have n: "0 < ?n" by simp
  from assms have "?n < 2 ^ 53" by (simp add: nat_less_iff)
  with n have b: "?b \<le> 53" by (rule bit_length_le)
  have bp: "0 < ?b" using n by (subst bit_length.simps) simp
  from False have "1 \<le> \<bar>k\<bar>" by simp
  then have "real_of_int 1 \<le> real_of_int \<bar>k\<bar>" by (simp only: of_int_le_iff)
  then have one: "1 \<le> \<bar>real_of_int k\<bar>" by simp
  have fl: "\<lfloor>\<bar>real_of_int k\<bar>\<rfloor> = \<bar>k\<bar>"
    by (simp only: of_int_abs [symmetric] floor_of_int)
  have e: "expo (real_of_int k) = int ?b - 1"
    using one by (simp only: expo_def fl if_True)
  let ?j = "53 - ?b"
  have u: "pow2 (max (expo (real_of_int k)) (- 1022) - 52) = 1 / 2 ^ ?j"
  proof (cases "?b = 53")
    case True
    then show ?thesis unfolding e by (simp add: pow2_def)
  next
    case False
    with b bp have "int ?b - 1 - 52 < 0" "nat (- (int ?b - 1 - 52)) = ?j" by linarith+
    then show ?thesis unfolding e using bp by (simp add: pow2_def max_def)
  qed
  have "real_of_int k / (1 / 2 ^ ?j) = real_of_int (k * 2 ^ ?j)" by simp
  then have r: "round_even (real_of_int k / (1 / 2 ^ ?j)) = k * 2 ^ ?j"
    by (simp only: round_even_int)
  from False show ?thesis
    unfolding to_double_def Let_def u r by simp
qed

lemma llround_error: "\<bar>real_of_int (llround y) - y\<bar> \<le> 1 / 2"
  unfolding llround_def by (simp add: abs_if) linarith

lemma pow2_tiny: "pow2 (- 1022) \<le> 1 / 2"
proof -
  have "(2::real) ^ 1 \<le> 2 ^ 1022" by (rule power_increasing) simp_all
  then show ?thesis by (simp add: pow2_def field_simps)
qed

lemma dmul_ll_error:
  assumes "1 \<le> per" "1 \<le> f * real_of_int per"
  shows "\<bar>dmul f (double_of_ll per) - f * real_of_int per\<bar> \<le> f * real_of_int per / 2 ^ 51"
proof -
  let ?p = "real_of_int per"
  let ?P = "double_of_ll per"
  let ?a = "f * ?p"
  from assms(1) have p: "1 \<le> ?p" by simp
  from assms(2) have "0 < f * ?p" by simp
  moreover from p have "0 < ?p" by simp
  ultimately have f: "0 < f" by (rule zero_less_mult_pos2)
  from p pow2_tiny have "pow2 (- 1022) \<le> \<bar>?p\<bar>" by simp
  then have "\<bar>?P - ?p\<bar> \<le> \<bar>?p\<bar> / 2 ^ 53"
    unfolding double_of_ll_def by (rule to_double_error)
  with p have eP: "\<bar>?P - ?p\<bar> \<le> ?p / 2 ^ 53" by simp
  have "\<bar>f * ?P - ?a\<bar> = f * \<bar>?P - ?p\<bar>"
    using f by (simp add: abs_mult right_diff_distrib [symmetric])
  also have "\<dots> \<le> f * (?p / 2 ^ 53)" using f eP by (intro mult_left_mono) simp_all
  finally have eX: "\<bar>f * ?P - ?a\<bar> \<le> ?a / 2 ^ 53" by simp
  from assms(2) have b0: "0 \<le> ?a / 2 ^ 53" by simp
  from assms(2) have t: "?a / 2 ^ 53 \<le> ?a / 100" by (intro divide_left_mono) simp_all
  from eX t assms(2) have X: "1 / 2 \<le> f * ?P" "f * ?P \<le> 2 * ?a" by linarith+
  with pow2_tiny have "pow2 (- 1022) \<le> \<bar>f * ?P\<bar>" by linarith
  then have "\<bar>to_double (f * ?P) - f * ?P\<bar> \<le> \<bar>f * ?P\<bar> / 2 ^ 53"
    by (rule to_double_error)
  moreover from X have "\<bar>f * ?P\<bar> / 2 ^ 53 \<le> 2 * ?a / 2 ^ 53"
    by (intro divide_right_mono) simp_all
  ultimately have eY: "\<bar>dmul f ?P - f * ?P\<bar> \<le> 2 * (?a / 2 ^ 53)"
    unfolding dmul_def by simp
  have q: "?a / 2 ^ 51 = 4 * (?a / 2 ^ 53)" by simp
  from eX eY b0 show ?thesis unfolding q by linarith
qed

lemma double_band:
  "to_double (5 / 100) = 3602879701896397 / 72057594037927936"
  "to_double (95 / 100) = 4278419646001971 / 4503599627370496"
  "to_double (1 / 20) = 3602879701896397 / 72057594037927936"
  "to_double (19 / 20) = 4278419646001971 / 4503599627370496"
  by (simp_all add: to_double_def expo_def pow2_def round_even_def Let_def bit_length.simps)

text \<open>
  For a period of at least 20 ns and a ratio inside the band the limits of
  \<^verbatim>\<open>bounded_dc_from_ratio\<close> do not bite: the duty is the rounded double product, within
  half a nanosecond plus a relative \<open>2\<^sup>-\<^sup>5\<^sup>1\<close> of the exact product.
\<close>

lemma bounded_dc_in_band:
  assumes "to_double (5 / 100) \<le> f" "f \<le> to_double (95 / 100)" "20 \<le> per"
  shows "bounded_dc_from_ratio f per = llround (dmul f (double_of_ll per))"
    and "\<bar>real_of_int (bounded_dc_from_ratio f per) - f * real_of_int per\<bar>
           \<le> 1 / 2 + f * real_of_int per / 2 ^ 51"
proof -
  let ?p = "real_of_int per"
  let ?a = "f * ?p"
  let ?Y = "dmul f (double_of_ll per)"
  from assms(3) have p: "20 \<le> ?p" by simp
  from assms(1,2) have f: "1 / 20 \<le> f" "f \<le> 19 / 20" unfolding double_band by simp_all
  have "1 / 20 * 20 \<le> f * ?p" using f p by (intro mult_mono) simp_all
  then have a1: "1 \<le> ?a" by simp
  have "f * ?p \<le> 19 / 20 * ?p" using f p by (intro mult_right_mono) simp_all
  then have a2: "?a \<le> 19 / 20 * ?p" .
  from assms(3) have "1 \<le> per" by simp
  then have e: "\<bar>?Y - ?a\<bar> \<le> ?a / 2 ^ 51" using a1 by (rule dmul_ll_error)
  from a1 have t: "?a / 2 ^ 51 \<le> ?a / 100" by (intro divide_left_mono) simp_all
  from e t a1 have lo: "1 / 2 \<le> ?Y" by linarith
  from e t a2 p have hi: "?Y + 1 / 2 < ?p" by linarith
  from lo have "1 \<le> \<lfloor>?Y + 1 / 2\<rfloor>" by linarith
  with lo have l1: "1 \<le> llround ?Y" by (simp add: llround_def)
  from hi have "\<lfloor>?Y + 1 / 2\<rfloor> < per" by linarith
  with lo have l2: "llround ?Y < per" by (simp add: llround_def)
  from assms(1,2) l1 l2 show eq: "bounded_dc_from_ratio f per = llround ?Y"
    by (simp add: bounded_dc_from_ratio_def Let_def)
  from llround_error [of ?Y] e
  show "\<bar>real_of_int (bounded_dc_from_ratio f per) - ?a\<bar> \<le> 1 / 2 + ?a / 2 ^ 51"
    unfolding eq by linarith
qed

text \<open>
  The rounding of the product matters: for the double nearest to 0.1235 and a period of
  1000 ns the exact product is just below 123.5 and would round to 123, while the double
  product is 123.5 and \<^verbatim>\<open>llround\<close> gives 124.
\<close>

lemma double_product_rounds:
  "bounded_dc_from_ratio (to_double (1235 / 10000)) 1000 = 124 \<and>
   llround (to_double (1235 / 10000) * 1000) = 123"
  by (simp add: bounded_dc_from_ratio_def dmul_def double_of_ll_def llround_def
      to_double_def expo_def pow2_def round_even_def Let_def bit_length.simps)

lemmas double_eval = to_double_def expo_def pow2_def round_even_def dmul_def ddiv_def
  double_of_ll_def llround_def bit_length.simps Let_def

section \<open>The PWM channel\<close>

lemma dec_digits_length: "0 < k \<Longrightarrow> n < 10 ^ k \<Longrightarrow> length (dec_digits n) \<le> k"
proof (induction n arbitrary: k rule: dec_digits.induct)
  case (1 n)
  show ?case
  proof (cases "n < 10")
    case True
    with 1(2) show ?thesis by (subst dec_digits.simps) simp
  next
    case False
    with 1(2,3) have k: "1 < k" by (cases "k = 1") auto
    then obtain j where j: "k = Suc j" "0 < j" by (cases k) auto
    from 1(3) j have "n div 10 < 10 ^ j" by (simp add: less_mult_imp_div_less mult.commute)
    with 1(1) False j have "length (dec_digits (n div 10)) \<le> j" by simp
    with False j show ?thesis by (subst dec_digits.simps) simp
  qed
qed

lemma lld_short: "fits_ll v \<Longrightarrow> length (lld v) < 32"
proof -
  assume f: "fits_ll v"
  have p: "(2::int) ^ 63 < 10 ^ 19" by simp
  have "length (dec_digits (nat \<bar>v\<bar>)) \<le> 19"
  proof (rule dec_digits_length)
    from f p have "\<bar>v\<bar> < 10 ^ 19" unfolding fits_ll_def by linarith
    then show "nat \<bar>v\<bar> < 10 ^ 19" by (simp add: nat_less_iff)
  qed simp
  then show ?thesis by (auto simp: lld_def abs_if split: if_splits)
qed

lemma write_str_trace [simp]:
  "trace (snd (write_str os p s w)) = trace w @ [EvWrite p s (fst (write_str os p s w))]"
  by (simp add: write_str_def Let_def case_prod_beta)

lemma write_str_rc: "fst (write_str os p s w) = 0 \<or> fst (write_str os p s w) = - 1"
  by (simp add: write_str_def Let_def case_prod_beta split: wres.splits)

lemma write_ll_rc: "fst (write_ll os p v w) = 0 \<or> fst (write_ll os p v w) = - 1"
  using write_str_rc [of os p "lld v" w] by (simp add: write_ll_def Let_def)

lemma write_ll_trace [simp]:
  "fits_ll v \<Longrightarrow>
   trace (snd (write_ll os p v w)) = trace w @ [EvWrite p (lld v) (fst (write_ll os p v w))]"
  using lld_short [of v] by (simp add: write_ll_def Let_def)

lemma write_ll_trace_any:
  "trace (snd (write_ll os p v w)) = trace w \<or>
   trace (snd (write_ll os p v w)) = trace w @ [EvWrite p (lld v) (fst (write_ll os p v w))]"
  by (simp add: write_ll_def Let_def)

lemma write_ll_accepted:
  "fst (write_ll os p v w) = 0 \<Longrightarrow>
   trace (snd (write_ll os p v w)) = trace w @ [EvWrite p (lld v) 0]"
  by (auto simp: write_ll_def Let_def split: if_splits)

lemma msleep_trace [simp]: "trace (msleep os ms w) = trace w @ [EvSleep (ms * 1000000)]"
  by (simp add: msleep_def nsleep_def)

lemma path_exists_trace [simp]: "trace (snd (path_exists os p w)) = trace w"
  by (simp add: path_exists_def case_prod_beta)

lemma read_ll_trace [simp]: "trace (snd (read_ll os p w)) = trace w"
  by (simp add: read_ll_def case_prod_beta)

lemma glob_trace [simp]: "trace (snd (glob os p w)) = trace w"
  by (simp add: glob_def case_prod_beta)

lemma fits_ll_small [simp]: "fits_ll 0" "fits_ll 1"
  by (simp_all add: fits_ll_def)

lemma lld_0_1 [simp]: "lld 0 = ''0''" "lld 1 = ''1''"
  by (simp_all add: lld_def dec_digits.simps)

lemma writes_append [simp]: "writes (xs @ ys) = writes xs @ writes ys"
  by (induction xs rule: writes.induct) simp_all

lemma written_append [simp]: "written p (xs @ ys) = written p xs @ written p ys"
  by (induction xs) auto

lemma pause_total_append [simp]: "pause_total (xs @ ys) = pause_total xs + pause_total ys"
  by (induction xs rule: pause_total.induct) simp_all

lemma committed_append:
  "committed p (xs @ ys) = (case committed p ys of Some x \<Rightarrow> Some x | None \<Rightarrow> committed p xs)"
  by (induction xs) (auto split: option.splits)

lemma bounded_dc_range:
  assumes "1 \<le> per"
  shows "0 \<le> bounded_dc_from_ratio f per" "bounded_dc_from_ratio f per < per"
  using assms by (simp_all add: bounded_dc_from_ratio_def Let_def)

lemma bounded_dc_inside:
  assumes "2 \<le> per"
  shows "0 < bounded_dc_from_ratio f per" "bounded_dc_from_ratio f per < per"
  using assms by (simp_all add: bounded_dc_from_ratio_def Let_def)

lemma bounded_dc_at_one: "bounded_dc_from_ratio f 1 = 0"
  by (simp add: bounded_dc_from_ratio_def Let_def)

lemma fits_ll_bounded_dc:
  "1 \<le> per \<Longrightarrow> fits_ll per \<Longrightarrow> fits_ll (bounded_dc_from_ratio f per)"
  using bounded_dc_range [of per f] by (simp add: fits_ll_def)


lemma init_attempt_shape:
  assumes "fits_ll per" "fits_ll dty"
  shows "\<exists>ws. writes (trace (snd (init_attempt os en pe du per dty w))) = writes (trace w) @ ws \<and>
           five_steps en pe du per dty ws = Some (fst (init_attempt os en pe du per dty w))"
  by (simp add: init_attempt_def Let_def case_prod_beta five_steps_def assms)

lemma init_loop_unroll:
  "init_loop os en pe du per dty 0 g w =
     (let g1 = g\<lparr>g_period_ns := per, g_duty_frac := ddiv (double_of_ll dty) (double_of_ll per)\<rparr>;
          p1 = init_attempt os en pe du per dty w
      in if fst p1 then (0, g1, snd p1)
         else (let p2 = init_attempt os en pe du per dty (snd p1)
               in if fst p2 then (0, g1, snd p2)
                  else (let p3 = init_attempt os en pe du per dty (snd p2)
                        in if fst p3 then (0, g1, snd p3) else (- 1, g, snd p3))))"
proof -
  let ?g1 = "g\<lparr>g_period_ns := per, g_duty_frac := ddiv (double_of_ll dty) (double_of_ll per)\<rparr>"
  have 3: "init_loop os en pe du per dty (Suc (Suc (Suc 0))) g x = (- 1, g, x)" for x
    by (subst init_loop.simps) simp
  have 2: "init_loop os en pe du per dty (Suc (Suc 0)) g x =
      (if fst (init_attempt os en pe du per dty x)
       then (0, ?g1, snd (init_attempt os en pe du per dty x))
       else (- 1, g, snd (init_attempt os en pe du per dty x)))" for x
    by (subst init_loop.simps) (simp add: 3 case_prod_beta)
  have 1: "init_loop os en pe du per dty (Suc 0) g x =
      (if fst (init_attempt os en pe du per dty x)
       then (0, ?g1, snd (init_attempt os en pe du per dty x))
       else init_loop os en pe du per dty (Suc (Suc 0)) g
              (snd (init_attempt os en pe du per dty x)))" for x
    by (subst init_loop.simps) (simp add: case_prod_beta)
  have 0: "init_loop os en pe du per dty 0 g x =
      (if fst (init_attempt os en pe du per dty x)
       then (0, ?g1, snd (init_attempt os en pe du per dty x))
       else init_loop os en pe du per dty (Suc 0) g
              (snd (init_attempt os en pe du per dty x)))" for x
    by (subst init_loop.simps) (simp add: case_prod_beta)
  show ?thesis
    by (simp only: 0 1 2 Let_def)
qed

lemma init_loop_passes:
  assumes f: "fits_ll per" "fits_ll dty"
    and run: "init_loop os en pe du per dty 0 g w = (rc, g', w')"
  shows "\<exists>passes. writes (trace w') = writes (trace w) @ concat passes \<and>
           passes \<noteq> [] \<and> length passes \<le> 3 \<and>
           (\<forall>ws \<in> set (butlast passes). five_steps en pe du per dty ws = Some False) \<and>
           five_steps en pe du per dty (List.last passes) = Some (rc = 0) \<and>
           (rc = 0 \<or> rc = - 1) \<and>
           (rc \<noteq> 0 \<longrightarrow> length passes = 3 \<and> g' = g) \<and>
           (rc = 0 \<longrightarrow>
              g' = g\<lparr>g_period_ns := per, g_duty_frac := ddiv (double_of_ll dty) (double_of_ll per)\<rparr>)"
proof -
  let ?att = "init_attempt os en pe du per dty"
  let ?p1 = "?att w"
  let ?p2 = "?att (snd ?p1)"
  let ?p3 = "?att (snd ?p2)"
  from init_attempt_shape [OF f, of os en pe du w] obtain ws1 where
    1: "writes (trace (snd ?p1)) = writes (trace w) @ ws1"
       "five_steps en pe du per dty ws1 = Some (fst ?p1)" by blast
  from init_attempt_shape [OF f, of os en pe du "snd ?p1"] obtain ws2 where
    2: "writes (trace (snd ?p2)) = writes (trace (snd ?p1)) @ ws2"
       "five_steps en pe du per dty ws2 = Some (fst ?p2)" by blast
  from init_attempt_shape [OF f, of os en pe du "snd ?p2"] obtain ws3 where
    3: "writes (trace (snd ?p3)) = writes (trace (snd ?p2)) @ ws3"
       "five_steps en pe du per dty ws3 = Some (fst ?p3)" by blast
  note u = run [unfolded init_loop_unroll Let_def]
  show ?thesis
  proof (cases "fst ?p1")
    case True
    with u 1 show ?thesis by (intro exI [of _ "[ws1]"]) auto
  next
    case n1: False
    show ?thesis
    proof (cases "fst ?p2")
      case True
      with n1 u 1 2 show ?thesis by (intro exI [of _ "[ws1, ws2]"]) auto
    next
      case n2: False
      show ?thesis
      proof (cases "fst ?p3")
        case True
        with n1 n2 u 1 2 3 show ?thesis by (intro exI [of _ "[ws1, ws2, ws3]"]) auto
      next
        case False
        with n1 n2 u 1 2 3 show ?thesis by (intro exI [of _ "[ws1, ws2, ws3]"]) auto
      qed
    qed
  qed
qed

lemma extends_by_iff:
  "extends_by P n w w' \<longleftrightarrow>
     (\<exists>evs. trace w' = trace w @ evs \<and> list_all P evs \<and> pause_total evs \<le> n)"
proof
  assume "extends_by P n w w'"
  then have "trace w' = trace w @ drop (length (trace w)) (trace w') \<and>
     list_all P (drop (length (trace w)) (trace w')) \<and>
     pause_total (drop (length (trace w)) (trace w')) \<le> n"
    unfolding extends_by_def by (metis append_take_drop_id)
  then show "\<exists>evs. trace w' = trace w @ evs \<and> list_all P evs \<and> pause_total evs \<le> n"
    by blast
next
  assume "\<exists>evs. trace w' = trace w @ evs \<and> list_all P evs \<and> pause_total evs \<le> n"
  then show "extends_by P n w w'" unfolding extends_by_def by auto
qed

lemma extends_by_refl: "trace w' = trace w \<Longrightarrow> extends_by P n w w'"
  by (simp add: extends_by_def)

lemma extends_by_trans:
  "extends_by P n w w1 \<Longrightarrow> extends_by P m w1 w2 \<Longrightarrow> n + m \<le> k \<Longrightarrow> extends_by P k w w2"
  unfolding extends_by_iff
  by (elim exE conjE) (rule_tac x = "evs @ evsa" in exI, simp)

lemma extends_by_trace_cong:
  "trace a = trace a' \<Longrightarrow> trace b = trace b' \<Longrightarrow> extends_by P n a b = extends_by P n a' b'"
  by (simp add: extends_by_def)

lemma probe_wait_extends_aux:
  "50 - t = n \<Longrightarrow> extends_by export_or_pause (n * 10000000) w (probe_wait os p t w)"
proof (induction n arbitrary: t w)
  case 0
  then have "probe_wait os p t w = w" by (subst probe_wait.simps) simp
  then show ?case by (simp add: extends_by_refl)
next
  case (Suc n)
  then have t: "t < 50" "50 - (t + 1) = n" by simp_all
  show ?case
  proof (cases "fst (path_exists os p w)")
    case True
    with t have "trace (probe_wait os p t w) = trace w"
      by (subst probe_wait.simps) (simp add: case_prod_beta)
    then show ?thesis by (rule extends_by_refl)
  next
    case False
    let ?w2 = "msleep os 10 (snd (path_exists os p w))"
    have ih: "extends_by export_or_pause (n * 10000000) ?w2 (probe_wait os p (t + 1) ?w2)"
      using t(2) by (rule Suc.IH)
    have st: "extends_by export_or_pause 10000000 w ?w2"
      by (simp add: extends_by_def export_or_pause_def)
    from False t have eq: "probe_wait os p t w = probe_wait os p (t + 1) ?w2"
      by (subst probe_wait.simps) (simp add: case_prod_beta)
    from extends_by_trans [OF st ih] show ?thesis unfolding eq by simp
  qed
qed

lemma probe_wait_extends:
  "extends_by export_or_pause ((50 - t) * 10000000) w (probe_wait os p t w)"
  by (rule probe_wait_extends_aux) simp

lemma ensure_exported_extends:
  assumes "drop (length x - 7) x = ''/export''"
  shows "extends_by export_or_pause 500000000 w (ensure_exported os x p w)"
proof (cases "fst (path_exists os p w)")
  case True
  then show ?thesis
    by (intro extends_by_refl) (simp add: ensure_exported_def case_prod_beta)
next
  case False
  let ?w1 = "snd (write_str os x ''0'' (snd (path_exists os p w)))"
  have a: "extends_by export_or_pause 0 w ?w1"
    using assms by (simp add: extends_by_def export_or_pause_def)
  have b: "extends_by export_or_pause ((50 - 0) * 10000000) ?w1 (probe_wait os p 0 ?w1)"
    by (rule probe_wait_extends)
  from False have "ensure_exported os x p w = probe_wait os p 0 ?w1"
    by (simp add: ensure_exported_def case_prod_beta)
  with extends_by_trans [OF a b] show ?thesis by simp
qed

lemma attrs_exist_trace [simp]: "trace (snd (attrs_exist os e p d w)) = trace w"
  by (simp add: attrs_exist_def case_prod_beta)

lemma path_join2_Some:
  "path_join2 n a b = Some c \<longleftrightarrow> c = a @ b \<and> length a + length b < n"
  by (auto simp: path_join2_def Let_def min_def)

lemma probe_one_extends:
  "extends_by export_or_pause 500000000 w (snd (probe_one os c w))"
proof -
  have e: "extends_by export_or_pause 500000000 w w'"
    if "trace w' = trace (ensure_exported os (c @ ''/export'') (c @ ''/pwm0'') w)" for w'
  proof -
    have "extends_by export_or_pause 500000000 w
        (ensure_exported os (c @ ''/export'') (c @ ''/pwm0'') w)"
      by (rule ensure_exported_extends) simp
    then show ?thesis using that by (simp add: extends_by_def)
  qed
  show ?thesis
    by (auto simp: probe_one_def path_join2_Some case_prod_beta extends_by_refl
        intro!: e split: option.splits)
qed

lemma probe_one_found:
  "fst (probe_one os c w) = Found d \<Longrightarrow> d = c @ ''/pwm0'' \<and> length d + 11 < PATH_MAX"
  by (auto simp: probe_one_def path_join2_Some case_prod_beta split: option.splits if_splits)

lemma probe_one_absent:
  "\<forall>h. \<not> fst (sys_stat os (c @ ''/pwm0'') h) \<Longrightarrow> fst (probe_one os c w) = Next"
  by (auto simp: probe_one_def path_join2_Some case_prod_beta path_exists_def
      split: option.splits if_splits)

lemma probe_chips_props:
  "probe_chips os cs g w = (rc, g', w') \<Longrightarrow>
     extends_by export_or_pause (500000000 * length cs) w w' \<and>
     (rc = 0 \<or> rc = - 1) \<and>
     (rc \<noteq> 0 \<longrightarrow> g' = g) \<and>
     (rc = 0 \<longrightarrow> (\<exists>c \<in> set cs. g' = g\<lparr>g_pwm_dir := c @ ''/pwm0''\<rparr> \<and>
                      length (c @ ''/pwm0'') + 11 < PATH_MAX))"
proof (induction cs arbitrary: w)
  case Nil
  then show ?case by (simp add: extends_by_refl)
next
  case (Cons c cs)
  let ?r = "fst (probe_one os c w)"
  let ?w1 = "snd (probe_one os c w)"
  have st: "extends_by export_or_pause 500000000 w ?w1" by (rule probe_one_extends)
  show ?case
  proof (cases ?r)
    case Next
    with Cons.prems have "probe_chips os cs g ?w1 = (rc, g', w')"
      by (simp add: case_prod_beta)
    from Cons.IH [OF this] extends_by_trans [OF st] show ?thesis by auto
  next
    case (Found d)
    with Cons.prems have "rc = 0" "g' = g\<lparr>g_pwm_dir := d\<rparr>" "w' = ?w1"
      by (simp_all add: case_prod_beta)
    moreover from Found have "d = c @ ''/pwm0'' \<and> length d + 11 < PATH_MAX"
      by (rule probe_one_found)
    moreover have "extends_by export_or_pause (500000000 * length (c # cs)) w ?w1"
      using st by (simp add: extends_by_def)
    ultimately show ?thesis by auto
  next
    case NameTooLong
    with Cons.prems have "rc = - 1" "g' = g" "w' = ?w1"
      by (simp_all add: case_prod_beta)
    moreover have "extends_by export_or_pause (500000000 * length (c # cs)) w ?w1"
      using st by (simp add: extends_by_def)
    ultimately show ?thesis by auto
  qed
qed

lemma probe_chips_absent:
  "\<forall>c h. \<not> fst (sys_stat os (c @ ''/pwm0'') h) \<Longrightarrow> fst (probe_chips os cs g w) = - 1"
  by (induction cs arbitrary: w) (simp_all add: case_prod_beta probe_one_absent)

lemma probe_start:
  "probe_find_pwm (os_scripted True rd) pwm_start (world_of h) =
     (0, pwm_probed 0, world_of h)"
  by (simp add: probe_find_pwm_def pwm_start_def pwm_probed_def glob_def os_scripted_def
      world_of_def probe_one_def path_join2_def PATH_MAX_def ensure_exported_def
      attrs_exist_def path_exists_def Let_def)

lemma init_params_100:
  "init_period 100 = 10000000"
  "init_fraction (1 / 64) = 1 / 2"
  "bounded_dc_from_ratio (1 / 2) 10000000 = 5000000"
  by (simp_all add: init_period_def init_fraction_def bounded_dc_from_ratio_def double_eval)

lemma write_ll_scripted:
  "length (lld v) < 32 \<Longrightarrow>
   write_ll (os_scripted e rd) p v \<lparr>hw = h, trace = tr\<rparr> =
     ((case h of [] \<Rightarrow> 0 | b # bs \<Rightarrow> if b then 0 else - 1),
      \<lparr>hw = tl h, trace = tr @ [EvWrite p (lld v)
         (case h of [] \<Rightarrow> 0 | b # bs \<Rightarrow> if b then 0 else - 1)]\<rparr>)"
  by (cases h) (simp_all add: write_ll_def write_str_def os_scripted_def Let_def)

lemma msleep_scripted:
  "msleep (os_scripted e rd) n \<lparr>hw = h, trace = tr\<rparr> =
     \<lparr>hw = h, trace = tr @ [EvSleep (n * 1000000)]\<rparr>"
  by (simp add: msleep_def nsleep_def os_scripted_def)

lemma lld_vals:
  "lld 10000000 = ''10000000''" "lld 5000000 = ''5000000''" "lld 500000 = ''500000''"
  by (simp_all add: lld_def dec_digits.simps)

lemma init_attempt_accept:
  "init_attempt (os_scripted True rd) ''/sys/class/pwm/pwmchip0/pwm0/enable''
      ''/sys/class/pwm/pwmchip0/pwm0/period'' ''/sys/class/pwm/pwmchip0/pwm0/duty_cycle''
      10000000 5000000 (world_of []) =
   (True, \<lparr>hw = [], trace =
      [EvWrite ''/sys/class/pwm/pwmchip0/pwm0/enable'' ''0'' 0, EvSleep 2000000,
       EvWrite ''/sys/class/pwm/pwmchip0/pwm0/duty_cycle'' ''1'' 0, EvSleep 1000000,
       EvWrite ''/sys/class/pwm/pwmchip0/pwm0/period'' ''10000000'' 0,
       EvWrite ''/sys/class/pwm/pwmchip0/pwm0/duty_cycle'' ''5000000'' 0,
       EvWrite ''/sys/class/pwm/pwmchip0/pwm0/enable'' ''1'' 0]\<rparr>)"
  by (simp add: init_attempt_def world_of_def write_ll_scripted msleep_scripted lld_vals Let_def)

lemma init_attempt_success:
  assumes "fst (init_attempt os en pe du per dty w)"
  shows "\<exists>r1 r2. writes (trace (snd (init_attempt os en pe du per dty w))) =
           writes (trace w) @
           [(en, ''0'', r1), (du, ''1'', r2), (pe, lld per, 0), (du, lld dty, 0), (en, ''1'', 0)]"
  using assms
  by (auto simp: init_attempt_def Let_def case_prod_beta write_ll_accepted split: if_splits)

lemma init_loop_success:
  assumes "init_loop os en pe du per dty 0 g w = (0, g', w')"
  shows "g' = g\<lparr>g_period_ns := per, g_duty_frac := ddiv (double_of_ll dty) (double_of_ll per)\<rparr> \<and>
         (\<exists>pre r1 r2. writes (trace w') =
            pre @ [(en, ''0'', r1), (du, ''1'', r2), (pe, lld per, 0), (du, lld dty, 0),
                   (en, ''1'', 0)])"
proof -
  let ?att = "init_attempt os en pe du per dty"
  note u = assms [unfolded init_loop_unroll Let_def]
  have s: "fst (?att x) \<Longrightarrow> \<exists>pre r1 r2. writes (trace (snd (?att x))) =
            pre @ [(en, ''0'', r1), (du, ''1'', r2), (pe, lld per, 0), (du, lld dty, 0),
                   (en, ''1'', 0)]" for x
    using init_attempt_success [of os en pe du per dty x] by blast
  show ?thesis
  proof (cases "fst (?att w)")
    case True
    with u s [of w] show ?thesis by auto
  next
    case n1: False
    show ?thesis
    proof (cases "fst (?att (snd (?att w)))")
      case True
      with n1 u s [of "snd (?att w)"] show ?thesis by auto
    next
      case n2: False
      show ?thesis
      proof (cases "fst (?att (snd (?att (snd (?att w)))))")
        case True
        with n1 n2 u s [of "snd (?att (snd (?att w)))"] show ?thesis by auto
      next
        case False
        with n1 n2 u show ?thesis by simp
      qed
    qed
  qed
qed

lemma committed_five:
  assumes "en \<noteq> du" "pe \<noteq> du" "pe \<noteq> en"
  shows "committed du (pre @ [(en, a, r1), (du, b, r2), (pe, p, 0), (du, d, 0), (en, e, 0)]) = Some d"
    "committed pe (pre @ [(en, a, r1), (du, b, r2), (pe, p, 0), (du, d, 0), (en, e, 0)]) = Some p"
    "committed en (pre @ [(en, a, r1), (du, b, r2), (pe, p, 0), (du, d, 0), (en, e, 0)]) = Some e"
  using assms by (simp_all add: committed_append)

lemma init_fraction_eq:
  "init_fraction duty =
     (if duty < to_double (5 / 100) \<or> duty > to_double (95 / 100) then 1 / 2 else duty)"
  by (simp add: init_fraction_def Let_def double_band)

lemma init_period_pos: "1 \<le> init_period hz"
  by (simp add: init_period_def Let_def)

lemma PWM0_init_success:
  assumes "PWM0_init os hz duty g w = (0, g', w')"
  shows "\<exists>g1 w1. init_loop os (g_pwm_dir g1 @ ''/enable'') (g_pwm_dir g1 @ ''/period'')
           (g_pwm_dir g1 @ ''/duty_cycle'') (init_period hz)
           (bounded_dc_from_ratio (init_fraction duty) (init_period hz)) 0 g1 w1 = (0, g', w')"
  using assms
  by (auto simp: PWM0_init_def case_prod_beta Let_def path_join2_Some
      split: if_splits option.splits)

text \<open>
  Claim C5, as the code has it, for a frequency whose period \<^verbatim>\<open>llround(1e9 / hz)\<close> fits
  a \<^verbatim>\<open>long long\<close>. A supplied fraction inside [0.05, 0.95] (the two doubles) is kept; a
  fraction below 0.05 or above 0.95 is replaced by 0.50 (it is not clamped to the nearer
  end of the band). When \<^verbatim>\<open>PWM0_init\<close> returns 0, the duty attribute holds
  \<^verbatim>\<open>bounded_dc_from_ratio\<close> of that fraction and the programmed period, the period
  attribute holds the period, the channel is enabled, and the module remembers the period
  and the double quotient of the two. The period is at least 1. The duty is 0 when the
  period is 1 ns and lies in [1, period - 1] when the period is at least 2 ns; for a period
  of at least 20 ns it is the double product of the fraction and the period, rounded to the
  nearest integer, which is within half a nanosecond plus a relative \<open>2\<^sup>-\<^sup>5\<^sup>1\<close> of the
  exact product.
\<close>

theorem pwm_init_commits:
  assumes run: "PWM0_init os hz duty g w = (0, g', w')"
    and fit: "fits_ll (init_period hz)"
  shows "(let per = init_period hz;
              f = (if duty < to_double (5 / 100) \<or> duty > to_double (95 / 100) then 1 / 2
                   else duty);
              dty = bounded_dc_from_ratio f per
          in committed (g_pwm_dir g' @ ''/duty_cycle'') (writes (trace w')) = Some (lld dty) \<and>
             committed (g_pwm_dir g' @ ''/period'') (writes (trace w')) = Some (lld per) \<and>
             committed (g_pwm_dir g' @ ''/enable'') (writes (trace w')) = Some ''1'' \<and>
             g_period_ns g' = per \<and>
             g_duty_frac g' = ddiv (double_of_ll dty) (double_of_ll per) \<and>
             1 \<le> per \<and> fits_ll dty \<and>
             (per = 1 \<longrightarrow> dty = 0) \<and>
             (2 \<le> per \<longrightarrow> 1 \<le> dty \<and> dty \<le> per - 1) \<and>
             (20 \<le> per \<longrightarrow>
                dty = llround (dmul f (double_of_ll per)) \<and>
                \<bar>real_of_int dty - f * real_of_int per\<bar>
                  \<le> 1 / 2 + f * real_of_int per / 2 ^ 51))"
proof -
  let ?per = "init_period hz"
  let ?f = "if duty < to_double (5 / 100) \<or> duty > to_double (95 / 100) then 1 / 2 else duty"
  let ?dty = "bounded_dc_from_ratio ?f ?per"
  from PWM0_init_success [OF run] obtain g1 w1 where
    l: "init_loop os (g_pwm_dir g1 @ ''/enable'') (g_pwm_dir g1 @ ''/period'')
           (g_pwm_dir g1 @ ''/duty_cycle'') ?per ?dty 0 g1 w1 = (0, g', w')"
    unfolding init_fraction_eq by blast
  from init_loop_success [OF l] obtain pre r1 r2 where
    g': "g' = g1\<lparr>g_period_ns := ?per, g_duty_frac := ddiv (double_of_ll ?dty) (double_of_ll ?per)\<rparr>"
    and tr: "writes (trace w') =
       pre @ [(g_pwm_dir g1 @ ''/enable'', ''0'', r1), (g_pwm_dir g1 @ ''/duty_cycle'', ''1'', r2),
              (g_pwm_dir g1 @ ''/period'', lld ?per, 0),
              (g_pwm_dir g1 @ ''/duty_cycle'', lld ?dty, 0),
              (g_pwm_dir g1 @ ''/enable'', ''1'', 0)]"
    by blast
  have d: "g_pwm_dir g' = g_pwm_dir g1" by (simp add: g')
  have c: "committed (g_pwm_dir g' @ ''/duty_cycle'') (writes (trace w')) = Some (lld ?dty)"
    "committed (g_pwm_dir g' @ ''/period'') (writes (trace w')) = Some (lld ?per)"
    "committed (g_pwm_dir g' @ ''/enable'') (writes (trace w')) = Some ''1''"
    unfolding d tr by (rule committed_five; simp)+
  have s: "g_period_ns g' = ?per" "g_duty_frac g' = ddiv (double_of_ll ?dty) (double_of_ll ?per)"
    by (simp_all add: g')
  have p: "1 \<le> ?per" by (rule init_period_pos)
  have fd: "fits_ll ?dty" using p fit by (rule fits_ll_bounded_dc)
  have one: "?per = 1 \<longrightarrow> ?dty = 0" by (simp add: bounded_dc_at_one)
  have two: "2 \<le> ?per \<longrightarrow> 1 \<le> ?dty \<and> ?dty \<le> ?per - 1"
    using bounded_dc_inside [of ?per ?f] by auto
  have band: "to_double (5 / 100) \<le> ?f" "?f \<le> to_double (95 / 100)"
    by (simp_all add: double_band)
  have b: "20 \<le> ?per \<longrightarrow>
      ?dty = llround (dmul ?f (double_of_ll ?per)) \<and>
      \<bar>real_of_int ?dty - ?f * real_of_int ?per\<bar> \<le> 1 / 2 + ?f * real_of_int ?per / 2 ^ 51"
    using bounded_dc_in_band [OF band] by blast
  from c s p fd one two b show ?thesis
    unfolding Let_def by (intro conjI)
qed

theorem pwm_init_commits_witness:
  "committed ''/sys/class/pwm/pwmchip0/pwm0/duty_cycle''
     (writes (trace (snd (snd (PWM0_init (os_scripted True None) 100 (1 / 4) pwm_start
        (world_of [])))))) = Some ''2500000'' \<and>
   g_period_ns (fst (snd (PWM0_init (os_scripted True None) 100 (1 / 4) pwm_start
        (world_of [])))) = 10000000 \<and>
   g_duty_frac (fst (snd (PWM0_init (os_scripted True None) 100 (1 / 4) pwm_start
        (world_of [])))) = 1 / 4"
proof -
  let ?r = "PWM0_init (os_scripted True None) 100 (1 / 4) pwm_start (world_of [])"
  have p: "init_period 100 = 10000000" "bounded_dc_from_ratio (1 / 4) 10000000 = 2500000"
    "ddiv (double_of_ll 2500000) (double_of_ll 10000000) = 1 / 4"
    by (simp_all add: init_period_def bounded_dc_from_ratio_def double_eval)
  have l: "lld 2500000 = ''2500000''" "lld 10000000 = ''10000000''"
    by (simp_all add: lld_def dec_digits.simps)
  have i: "init_fraction (1 / 4) = 1 / 4" by (simp add: init_fraction_eq double_band)
  have b: "\<not> (1 / 4 < to_double (5 / 100) \<or> 1 / 4 > to_double (95 / 100))"
    by (simp add: double_band)
  have a: "init_attempt (os_scripted True None) ''/sys/class/pwm/pwmchip0/pwm0/enable''
      ''/sys/class/pwm/pwmchip0/pwm0/period'' ''/sys/class/pwm/pwmchip0/pwm0/duty_cycle''
      10000000 2500000 (world_of []) =
   (True, \<lparr>hw = [], trace =
      [EvWrite ''/sys/class/pwm/pwmchip0/pwm0/enable'' ''0'' 0, EvSleep 2000000,
       EvWrite ''/sys/class/pwm/pwmchip0/pwm0/duty_cycle'' ''1'' 0, EvSleep 1000000,
       EvWrite ''/sys/class/pwm/pwmchip0/pwm0/period'' ''10000000'' 0,
       EvWrite ''/sys/class/pwm/pwmchip0/pwm0/duty_cycle'' ''2500000'' 0,
       EvWrite ''/sys/class/pwm/pwmchip0/pwm0/enable'' ''1'' 0]\<rparr>)"
    by (simp add: init_attempt_def world_of_def write_ll_scripted msleep_scripted l Let_def)
  have run: "fst ?r = 0 \<and> g_pwm_dir (fst (snd ?r)) = ''/sys/class/pwm/pwmchip0/pwm0''"
    by (simp add: PWM0_init_def probe_start pwm_probed_def path_join2_def PATH_MAX_def Let_def
        p i init_loop_unroll a)
  then have r: "?r = (0, fst (snd ?r), snd (snd ?r))" by (metis prod.collapse)
  have fit: "fits_ll (init_period 100)" by (simp add: p fits_ll_def)
  note t = pwm_init_commits [OF r fit, unfolded Let_def if_not_P [OF b] p]
  from t run have 1: "committed ''/sys/class/pwm/pwmchip0/pwm0/duty_cycle''
     (writes (trace (snd (snd ?r)))) = Some ''2500000''"
    by (simp add: l)
  from t have 2: "g_period_ns (fst (snd ?r)) = 10000000" by blast
  from t have 3: "g_duty_frac (fst (snd ?r)) = 1 / 4" by blast
  from 1 2 3 show ?thesis by blast
qed

text \<open>
  Claim C5 as stated has a fraction below 0.05 commit 5% of the period. At 100 Hz the
  period is 10,000,000 ns and 5% of it is 500,000 ns; for the fraction 1/64 (0.015625)
  the code commits 5,000,000 ns, half the period.
\<close>

theorem pwm_init_replaces_out_of_band:
  "fst (PWM0_init (os_scripted True None) 100 (1 / 64) pwm_start (world_of [])) = 0 \<and>
   committed ''/sys/class/pwm/pwmchip0/pwm0/period''
     (writes (trace (snd (snd (PWM0_init (os_scripted True None) 100 (1 / 64) pwm_start
        (world_of [])))))) = Some ''10000000'' \<and>
   committed ''/sys/class/pwm/pwmchip0/pwm0/duty_cycle''
     (writes (trace (snd (snd (PWM0_init (os_scripted True None) 100 (1 / 64) pwm_start
        (world_of [])))))) = Some ''5000000'' \<and>
   (1 / 64 :: real) < to_double (5 / 100) \<and>
   lld (llround (dmul (to_double (5 / 100)) (double_of_ll 10000000))) = ''500000''"
proof -
  have v: "llround (dmul (to_double (5 / 100)) (double_of_ll 10000000)) = 500000"
    by (simp add: double_eval)
  have b: "(1 / 64 :: real) < to_double (5 / 100)" by (simp add: double_band)
  have "fst (PWM0_init (os_scripted True None) 100 (1 / 64) pwm_start (world_of [])) = 0 \<and>
   committed ''/sys/class/pwm/pwmchip0/pwm0/period''
     (writes (trace (snd (snd (PWM0_init (os_scripted True None) 100 (1 / 64) pwm_start
        (world_of [])))))) = Some ''10000000'' \<and>
   committed ''/sys/class/pwm/pwmchip0/pwm0/duty_cycle''
     (writes (trace (snd (snd (PWM0_init (os_scripted True None) 100 (1 / 64) pwm_start
        (world_of [])))))) = Some ''5000000''"
    by (simp add: PWM0_init_def probe_start pwm_probed_def path_join2_def PATH_MAX_def Let_def
        init_params_100 init_loop_unroll init_attempt_accept lld_vals)
  with v b show ?thesis by (simp add: lld_vals)
qed

lemma probe_find_pwm_props:
  assumes "probe_find_pwm os g w = (rcp, g1, w1)"
    and "length (g_pwm_dir g) + 11 < PATH_MAX"
  shows "(rcp = 0 \<or> rcp = - 1) \<and>
         g_period_ns g1 = g_period_ns g \<and> g_duty_frac g1 = g_duty_frac g \<and>
         (rcp \<noteq> 0 \<longrightarrow> g1 = g) \<and>
         (rcp = 0 \<longrightarrow> length (g_pwm_dir g1) + 11 < PATH_MAX) \<and>
         extends_by export_or_pause
           (500000000 * (case fst (glob os ''/sys/class/pwm/pwmchip*'' w) of
                           None \<Rightarrow> 0 | Some pathv \<Rightarrow> length pathv)) w w1"
proof (cases "g_pwm_dir g \<noteq> []")
  case True
  with assms show ?thesis by (simp add: probe_find_pwm_def extends_by_refl)
next
  case e: False
  let ?gl = "glob os ''/sys/class/pwm/pwmchip*'' w"
  show ?thesis
  proof (cases "fst ?gl")
    case None
    with e assms show ?thesis
      by (auto simp: probe_find_pwm_def case_prod_beta extends_by_refl)
  next
    case (Some pathv)
    with e assms have pc: "probe_chips os pathv g (snd ?gl) = (rcp, g1, w1)"
      by (simp add: probe_find_pwm_def case_prod_beta)
    note p = probe_chips_props [OF pc]
    from p have "extends_by export_or_pause (500000000 * length pathv) (snd ?gl) w1" by blast
    then have "extends_by export_or_pause (500000000 * length pathv) w w1"
      by (simp add: extends_by_def)
    with p Some assms(2) show ?thesis by auto
  qed
qed

lemma probe_find_pwm_absent:
  assumes "g_pwm_dir g = []" and "\<forall>c h. \<not> fst (sys_stat os (c @ ''/pwm0'') h)"
  shows "fst (probe_find_pwm os g w) = - 1"
  using assms probe_chips_absent [of os _ g]
  by (simp add: probe_find_pwm_def case_prod_beta split: option.splits)

lemma PWM0_init_failed_probe:
  "fst (probe_find_pwm os g w) \<noteq> 0 \<Longrightarrow>
   PWM0_init os hz duty g w = (- 1, fst (snd (probe_find_pwm os g w)), snd (snd (probe_find_pwm os g w)))"
  by (simp add: PWM0_init_def case_prod_beta)

lemma PWM0_init_probed:
  assumes "fst (probe_find_pwm os g w) = 0"
    and "length (g_pwm_dir (fst (snd (probe_find_pwm os g w)))) + 11 < PATH_MAX"
  shows "PWM0_init os hz duty g w =
     init_loop os (g_pwm_dir (fst (snd (probe_find_pwm os g w))) @ ''/enable'')
       (g_pwm_dir (fst (snd (probe_find_pwm os g w))) @ ''/period'')
       (g_pwm_dir (fst (snd (probe_find_pwm os g w))) @ ''/duty_cycle'')
       (init_period hz) (bounded_dc_from_ratio (init_fraction duty) (init_period hz)) 0
       (fst (snd (probe_find_pwm os g w))) (snd (snd (probe_find_pwm os g w)))"
  using assms
  by (simp add: PWM0_init_def case_prod_beta path_join2_def Let_def min_def)

text \<open>
  Claim C6. Let the remembered channel directory be empty or one that an earlier probe
  stored (so the attribute paths fit \<^verbatim>\<open>PATH_MAX\<close>), and let the period
  \<^verbatim>\<open>llround(1e9 / hz)\<close> fit a \<^verbatim>\<open>long long\<close>. \<^verbatim>\<open>PWM0_init\<close> returns 0 or
  -1. When the probe fails it returns -1 with the module state untouched. When the probe
  succeeds, the writes that follow it are one, two or three passes of the five-step
  sequence: every pass but the last was cut short by a rejected step 3, 4 or 5, the last
  pass was accepted in full exactly when the result is 0, and the result is -1 only after
  three failed passes. The cached period and duty ratio change only when the result is 0.
  During the probe the only events are writes of 0 to an \<^verbatim>\<open>export\<close> file and pauses
  of 10 ms, at most 500 ms of them for each controller that \<^verbatim>\<open>glob\<close> found. If no
  \<^verbatim>\<open>pwm0\<close> directory ever appears, the result is -1, the module state is untouched and
  those are all the events of the call: nothing is written to any \<^verbatim>\<open>enable\<close> file.
\<close>

theorem pwm_init_retries:
  assumes run: "PWM0_init os hz duty g w = (rc, g', w')"
    and dir: "length (g_pwm_dir g) + 11 < PATH_MAX"
    and fit: "fits_ll (init_period hz)"
  shows "(rc = 0 \<or> rc = - 1) \<and>
         (rc \<noteq> 0 \<longrightarrow> g_period_ns g' = g_period_ns g \<and> g_duty_frac g' = g_duty_frac g) \<and>
         (let per = init_period hz;
              dty = bounded_dc_from_ratio (init_fraction duty) per;
              rcp = fst (probe_find_pwm os g w);
              g1 = fst (snd (probe_find_pwm os g w));
              w1 = snd (snd (probe_find_pwm os g w));
              chips = (case fst (glob os ''/sys/class/pwm/pwmchip*'' w) of
                         None \<Rightarrow> 0 | Some pathv \<Rightarrow> length pathv)
          in (rc = 0 \<longrightarrow>
                g_period_ns g' = per \<and> g_duty_frac g' = ddiv (double_of_ll dty) (double_of_ll per)) \<and>
             extends_by export_or_pause (500000000 * chips) w w1 \<and>
             (rcp \<noteq> 0 \<longrightarrow> rc = - 1 \<and> g' = g \<and> w' = w1) \<and>
             (rcp = 0 \<longrightarrow>
                (\<exists>passes.
                   writes (trace w') = writes (trace w1) @ concat passes \<and>
                   passes \<noteq> [] \<and> length passes \<le> 3 \<and>
                   (\<forall>ws \<in> set (butlast passes).
                      five_steps (g_pwm_dir g1 @ ''/enable'') (g_pwm_dir g1 @ ''/period'')
                        (g_pwm_dir g1 @ ''/duty_cycle'') per dty ws = Some False) \<and>
                   five_steps (g_pwm_dir g1 @ ''/enable'') (g_pwm_dir g1 @ ''/period'')
                     (g_pwm_dir g1 @ ''/duty_cycle'') per dty (List.last passes) =
                     Some (rc = 0) \<and>
                   (rc \<noteq> 0 \<longrightarrow> length passes = 3))) \<and>
             (g_pwm_dir g = [] \<and> (\<forall>c h. \<not> fst (sys_stat os (c @ ''/pwm0'') h)) \<longrightarrow>
                rc = - 1 \<and> g' = g \<and> extends_by export_or_pause (500000000 * chips) w w'))"
proof -
  let ?per = "init_period hz"
  let ?dty = "bounded_dc_from_ratio (init_fraction duty) ?per"
  let ?pr = "probe_find_pwm os g w"
  let ?rcp = "fst ?pr"
  let ?g1 = "fst (snd ?pr)"
  let ?w1 = "snd (snd ?pr)"
  let ?chips = "case fst (glob os ''/sys/class/pwm/pwmchip*'' w) of
                  None \<Rightarrow> 0 | Some pathv \<Rightarrow> length pathv"
  let ?en = "g_pwm_dir ?g1 @ ''/enable''"
  let ?pe = "g_pwm_dir ?g1 @ ''/period''"
  let ?du = "g_pwm_dir ?g1 @ ''/duty_cycle''"
  have "?pr = (?rcp, ?g1, ?w1)" by simp
  note pp = probe_find_pwm_props [OF this dir]
  from pp have ext: "extends_by export_or_pause (500000000 * ?chips) w ?w1" by blast
  from pp have g1: "g_period_ns ?g1 = g_period_ns g" "g_duty_frac ?g1 = g_duty_frac g" by blast+
  have fd: "fits_ll ?dty" using init_period_pos fit by (rule fits_ll_bounded_dc)
  have failed: "rc = - 1 \<and> g' = g \<and> w' = ?w1" if "?rcp \<noteq> 0"
  proof -
    from that pp have "?g1 = g" by blast
    with PWM0_init_failed_probe [OF that, of hz duty] run show ?thesis by simp
  qed
  have probed: "\<exists>passes.
      writes (trace w') = writes (trace ?w1) @ concat passes \<and>
      passes \<noteq> [] \<and> length passes \<le> 3 \<and>
      (\<forall>ws \<in> set (butlast passes). five_steps ?en ?pe ?du ?per ?dty ws = Some False) \<and>
      five_steps ?en ?pe ?du ?per ?dty (List.last passes) = Some (rc = 0) \<and>
      (rc = 0 \<or> rc = - 1) \<and>
      (rc \<noteq> 0 \<longrightarrow> length passes = 3 \<and> g' = ?g1) \<and>
      (rc = 0 \<longrightarrow>
         g' = ?g1\<lparr>g_period_ns := ?per, g_duty_frac := ddiv (double_of_ll ?dty) (double_of_ll ?per)\<rparr>)"
    if "?rcp = 0"
  proof -
    from that pp have "length (g_pwm_dir ?g1) + 11 < PATH_MAX" by blast
    with PWM0_init_probed [OF that, of hz duty] run
    have "init_loop os ?en ?pe ?du ?per ?dty 0 ?g1 ?w1 = (rc, g', w')" by simp
    then show ?thesis by (rule init_loop_passes [OF fit fd])
  qed
  have rc: "rc = 0 \<or> rc = - 1"
    using failed probed by (cases "?rcp = 0") blast+
  have keep: "rc \<noteq> 0 \<longrightarrow> g_period_ns g' = g_period_ns g \<and> g_duty_frac g' = g_duty_frac g"
  proof
    assume nz: "rc \<noteq> 0"
    show "g_period_ns g' = g_period_ns g \<and> g_duty_frac g' = g_duty_frac g"
    proof (cases "?rcp = 0")
      case True
      from probed [OF this] nz have "g' = ?g1" by blast
      with g1 show ?thesis by simp
    next
      case False
      from failed [OF this] show ?thesis by simp
    qed
  qed
  have upd: "rc = 0 \<longrightarrow>
      g_period_ns g' = ?per \<and> g_duty_frac g' = ddiv (double_of_ll ?dty) (double_of_ll ?per)"
  proof
    assume z: "rc = 0"
    with failed have "?rcp = 0" by (cases "?rcp = 0") auto
    from probed [OF this] z
    have "g' = ?g1\<lparr>g_period_ns := ?per, g_duty_frac := ddiv (double_of_ll ?dty) (double_of_ll ?per)\<rparr>"
      by blast
    then show "g_period_ns g' = ?per \<and> g_duty_frac g' = ddiv (double_of_ll ?dty) (double_of_ll ?per)"
      by simp
  qed
  have passes: "?rcp = 0 \<longrightarrow> (\<exists>passes.
      writes (trace w') = writes (trace ?w1) @ concat passes \<and>
      passes \<noteq> [] \<and> length passes \<le> 3 \<and>
      (\<forall>ws \<in> set (butlast passes). five_steps ?en ?pe ?du ?per ?dty ws = Some False) \<and>
      five_steps ?en ?pe ?du ?per ?dty (List.last passes) = Some (rc = 0) \<and>
      (rc \<noteq> 0 \<longrightarrow> length passes = 3))"
    using probed by blast
  have absent: "g_pwm_dir g = [] \<and> (\<forall>c h. \<not> fst (sys_stat os (c @ ''/pwm0'') h)) \<longrightarrow>
      rc = - 1 \<and> g' = g \<and> extends_by export_or_pause (500000000 * ?chips) w w'"
  proof
    assume a: "g_pwm_dir g = [] \<and> (\<forall>c h. \<not> fst (sys_stat os (c @ ''/pwm0'') h))"
    then have "?rcp = - 1" by (intro probe_find_pwm_absent) blast+
    then have "?rcp \<noteq> 0" by simp
    from failed [OF this] ext
    show "rc = - 1 \<and> g' = g \<and> extends_by export_or_pause (500000000 * ?chips) w w'" by simp
  qed
  from rc keep upd ext failed passes absent show ?thesis
    unfolding Let_def by blast
qed

theorem pwm_init_retries_witness:
  "fst (PWM0_init (os_scripted True None) 100 (1 / 2) pwm_start (world_of [True, True, False])) = 0 \<and>
   g_period_ns (fst (snd (PWM0_init (os_scripted True None) 100 (1 / 2) pwm_start
      (world_of [True, True, False])))) = 10000000 \<and>
   fst (PWM0_init (os_scripted False None) 100 (1 / 2) pwm_start (world_of [])) = - 1 \<and>
   fst (snd (PWM0_init (os_scripted False None) 100 (1 / 2) pwm_start (world_of []))) = pwm_start \<and>
   extends_by export_or_pause 500000000 (world_of [])
     (snd (snd (PWM0_init (os_scripted False None) 100 (1 / 2) pwm_start (world_of []))))"
proof -
  let ?a = "PWM0_init (os_scripted True None) 100 (1 / 2) pwm_start (world_of [True, True, False])"
  let ?b = "PWM0_init (os_scripted False None) 100 (1 / 2) pwm_start (world_of [])"
  have dir: "length (g_pwm_dir pwm_start) + 11 < PATH_MAX"
    by (simp add: pwm_start_def PATH_MAX_def)
  have fit: "fits_ll (init_period 100)"
    by (simp add: init_params_100 fits_ll_def)
  have i: "init_fraction (1 / 2) = 1 / 2" by (simp add: init_fraction_def)
  have a1: "init_attempt (os_scripted True None) ''/sys/class/pwm/pwmchip0/pwm0/enable''
      ''/sys/class/pwm/pwmchip0/pwm0/period'' ''/sys/class/pwm/pwmchip0/pwm0/duty_cycle''
      10000000 5000000 (world_of [True, True, False]) =
   (False, \<lparr>hw = [], trace =
      [EvWrite ''/sys/class/pwm/pwmchip0/pwm0/enable'' ''0'' 0, EvSleep 2000000,
       EvWrite ''/sys/class/pwm/pwmchip0/pwm0/duty_cycle'' ''1'' 0, EvSleep 1000000,
       EvWrite ''/sys/class/pwm/pwmchip0/pwm0/period'' ''10000000'' (- 1),
       EvSleep 2000000]\<rparr>)"
    by (simp add: init_attempt_def world_of_def write_ll_scripted msleep_scripted lld_vals Let_def)
  have a2: "fst (init_attempt (os_scripted True None) ''/sys/class/pwm/pwmchip0/pwm0/enable''
      ''/sys/class/pwm/pwmchip0/pwm0/period'' ''/sys/class/pwm/pwmchip0/pwm0/duty_cycle''
      10000000 5000000 \<lparr>hw = [], trace = tr\<rparr>)" for tr
    by (simp add: init_attempt_def write_ll_scripted msleep_scripted lld_vals Let_def)
  have ra: "fst ?a = 0"
    by (simp add: PWM0_init_def probe_start pwm_probed_def path_join2_def PATH_MAX_def Let_def
        init_params_100 i init_loop_unroll a1 a2)
  have "?a = (0, fst (snd ?a), snd (snd ?a))" using ra by (metis prod.collapse)
  note ta = pwm_init_retries [OF this dir fit, unfolded Let_def]
  then have pa: "g_period_ns (fst (snd ?a)) = 10000000"
    by (simp add: init_params_100)
  have absent: "g_pwm_dir pwm_start = [] \<and>
      (\<forall>c h. \<not> fst (sys_stat (os_scripted False None) (c @ ''/pwm0'') h))"
    by (simp add: pwm_start_def os_scripted_def)
  have chips: "(case fst (glob (os_scripted False None) ''/sys/class/pwm/pwmchip*'' (world_of [])) of
      None \<Rightarrow> 0 | Some pathv \<Rightarrow> length pathv) = 1"
    by (simp add: glob_def os_scripted_def)
  have "?b = (fst ?b, fst (snd ?b), snd (snd ?b))" by simp
  note tb = pwm_init_retries [OF this dir fit, unfolded Let_def chips]
  from tb absent have pb: "fst ?b = - 1 \<and> fst (snd ?b) = pwm_start \<and>
      extends_by export_or_pause 500000000 (world_of []) (snd (snd ?b))"
    by simp
  from ra pa pb show ?thesis by blast
qed

lemma cached_period_props:
  assumes "cached_period os g w = (Some g1, w0)"
  shows "g_pwm_dir g1 = g_pwm_dir g" "g_duty_frac g1 = g_duty_frac g" "0 < g_period_ns g1"
    "trace w0 = trace w"
  using assms
  by (auto simp: cached_period_def case_prod_beta split: if_splits option.splits)

lemma cached_period_None:
  assumes "cached_period os g w = (None, w0)"
  shows "trace w0 = trace w"
  using assms
  by (auto simp: cached_period_def case_prod_beta split: if_splits option.splits)

lemma bounded_dc_clamped:
  assumes "20 \<le> per"
  shows "(let c = (if f < to_double (5 / 100) then to_double (5 / 100)
                   else if f > to_double (95 / 100) then to_double (95 / 100) else f)
          in bounded_dc_from_ratio f per = llround (dmul c (double_of_ll per)) \<and>
             \<bar>real_of_int (bounded_dc_from_ratio f per) - c * real_of_int per\<bar>
               \<le> 1 / 2 + c * real_of_int per / 2 ^ 51)"
proof -
  let ?c = "if f < to_double (5 / 100) then to_double (5 / 100)
            else if f > to_double (95 / 100) then to_double (95 / 100) else f"
  have e: "bounded_dc_from_ratio f per = bounded_dc_from_ratio ?c per"
    by (simp add: bounded_dc_from_ratio_def Let_def double_band)
  have band: "to_double (5 / 100) \<le> ?c" "?c \<le> to_double (95 / 100)"
    by (simp_all add: double_band)
  from bounded_dc_in_band [OF band assms] show ?thesis
    unfolding Let_def e by (rule conjI)
qed

lemma PWM0_set_duty_unfold:
  assumes c: "cached_period os g w = (Some g1, w0)"
    and dir: "g_pwm_dir g \<noteq> []" "length (g_pwm_dir g) + 11 < PATH_MAX"
  shows "PWM0_set_duty os f g w =
     (let du = g_pwm_dir g @ ''/duty_cycle'';
          en = g_pwm_dir g @ ''/enable'';
          dc = bounded_dc_from_ratio f (g_period_ns g1);
          g2 = g1\<lparr>g_duty_frac := f\<rparr>;
          direct = write_ll os du dc w0
      in if fst direct \<noteq> 0 then
           (let rd = read_ll os en (snd direct);
                w3 = msleep os 1 (snd (write_ll os en 0 (snd rd)));
                w4 = snd (write_ll os du 1 w3);
                again = write_ll os du dc w4;
                w6 = (if fst rd = 0 then snd again else snd (write_ll os en 1 (snd again)))
            in (if fst again \<noteq> 0 then - 1 else 0, g2, w6))
         else (0, g2, snd direct))"
  using dir cached_period_props(1) [OF c]
  by (simp add: PWM0_set_duty_def c Let_def case_prod_beta path_join2_def min_def)

text \<open>
  Claim C7, as the code has it. Let \<^verbatim>\<open>PWM0_set_duty\<close> get past its guards (a probed
  channel whose paths fit, a period that is cached or can be read), with a period that
  fits a C \<^verbatim>\<open>long long\<close>. The period is then positive; the target duty is
  \<^verbatim>\<open>bounded_dc_from_ratio\<close> of the fraction and the period: it is 0 for a period of
  1 ns, for a period of at least 2 ns it lies strictly between 0 and the period, and for a
  period of at least 20 ns it is the double product of the period and the fraction
  limited to [0.05, 0.95] (the two doubles), rounded to the nearest integer, which is
  within half a nanosecond plus a relative \<open>2\<^sup>-\<^sup>5\<^sup>1\<close> of the exact product. When the
  direct write is accepted it is the only write. When it is rejected, the writes are: the rejected one, enable 0, duty 1, the
  target duty again, and then enable 1 unless the enable attribute read back as 0 (an
  attribute that cannot be read counts as enabled); the result is 0 exactly when the
  second write of the target was accepted. Whenever the result is 0 the duty attribute
  holds the target.
\<close>

theorem pwm_set_duty_writes:
  assumes run: "PWM0_set_duty os f g w = (rc, g', w')"
    and dir: "g_pwm_dir g \<noteq> []" "length (g_pwm_dir g) + 11 < PATH_MAX"
    and known: "fst (cached_period os g w) \<noteq> None"
    and fit: "fits_ll (g_period_ns g')"
  shows "(let per = g_period_ns g';
              dc = bounded_dc_from_ratio f per;
              du = g_pwm_dir g @ ''/duty_cycle'';
              en = g_pwm_dir g @ ''/enable'';
              direct = write_ll os du dc (snd (cached_period os g w));
              was = fst (read_ll os en (snd direct));
              c = (if f < to_double (5 / 100) then to_double (5 / 100)
                   else if f > to_double (95 / 100) then to_double (95 / 100) else f)
          in 0 < per \<and>
             (per = 1 \<longrightarrow> dc = 0) \<and>
             (2 \<le> per \<longrightarrow> 0 < dc \<and> dc < per) \<and>
             (20 \<le> per \<longrightarrow>
                dc = llround (dmul c (double_of_ll per)) \<and>
                \<bar>real_of_int dc - c * real_of_int per\<bar>
                  \<le> 1 / 2 + c * real_of_int per / 2 ^ 51) \<and>
             (fst direct = 0 \<longrightarrow>
                rc = 0 \<and> writes (trace w') = writes (trace w) @ [(du, lld dc, 0)]) \<and>
             (fst direct \<noteq> 0 \<longrightarrow>
                (\<exists>r1 r2 r4 r5.
                   writes (trace w') =
                     writes (trace w) @
                     [(du, lld dc, fst direct), (en, ''0'', r1), (du, ''1'', r2), (du, lld dc, r4)] @
                     (if was = 0 then [] else [(en, ''1'', r5)]) \<and>
                   rc = (if r4 = 0 then 0 else - 1))) \<and>
             (rc = 0 \<longrightarrow> committed du (writes (trace w')) = Some (lld dc)))"
proof -
  from known obtain g1 w0 where c: "cached_period os g w = (Some g1, w0)"
    by (cases "cached_period os g w") auto
  note cp = cached_period_props [OF c]
  let ?per = "g_period_ns g1"
  let ?dc = "bounded_dc_from_ratio f ?per"
  let ?c = "if f < to_double (5 / 100) then to_double (5 / 100)
            else if f > to_double (95 / 100) then to_double (95 / 100) else f"
  let ?du = "g_pwm_dir g @ ''/duty_cycle''"
  let ?en = "g_pwm_dir g @ ''/enable''"
  let ?direct = "write_ll os ?du ?dc w0"
  let ?rd = "read_ll os ?en (snd ?direct)"
  let ?w3 = "msleep os 1 (snd (write_ll os ?en 0 (snd ?rd)))"
  let ?w4 = "snd (write_ll os ?du 1 ?w3)"
  let ?again = "write_ll os ?du ?dc ?w4"
  let ?w6 = "if fst ?rd = 0 then snd ?again else snd (write_ll os ?en 1 (snd ?again))"
  note u = run [unfolded PWM0_set_duty_unfold [OF c dir] Let_def]
  have g': "g_period_ns g' = ?per" using u by (auto split: if_splits)
  have fp: "fits_ll ?per" using fit g' by simp
  have pos: "1 \<le> ?per" using cp(3) by simp
  have fd: "fits_ll ?dc" using pos fp by (rule fits_ll_bounded_dc)
  have ne: "?en \<noteq> ?du" by simp
  have inside: "2 \<le> ?per \<longrightarrow> 0 < ?dc \<and> ?dc < ?per"
    using bounded_dc_inside [of ?per f] by blast
  have one: "?per = 1 \<longrightarrow> ?dc = 0" by (simp add: bounded_dc_at_one)
  have band: "20 \<le> ?per \<longrightarrow>
      ?dc = llround (dmul ?c (double_of_ll ?per)) \<and>
      \<bar>real_of_int ?dc - ?c * real_of_int ?per\<bar> \<le> 1 / 2 + ?c * real_of_int ?per / 2 ^ 51"
    using bounded_dc_clamped [of ?per f, unfolded Let_def] by blast
  have ok: "fst ?direct = 0 \<longrightarrow>
      rc = 0 \<and> writes (trace w') = writes (trace w) @ [(?du, lld ?dc, 0)]"
    using u cp(4) by (auto simp: write_ll_accepted)
  have fb: "fst ?direct \<noteq> 0 \<longrightarrow>
      (\<exists>r1 r2 r4 r5.
         writes (trace w') =
           writes (trace w) @
           [(?du, lld ?dc, fst ?direct), (?en, ''0'', r1), (?du, ''1'', r2), (?du, lld ?dc, r4)] @
           (if fst ?rd = 0 then [] else [(?en, ''1'', r5)]) \<and>
         rc = (if r4 = 0 then 0 else - 1))"
  proof
    assume n: "fst ?direct \<noteq> 0"
    with u have r: "rc = (if fst ?again = 0 then 0 else - 1)" and w': "w' = ?w6" by auto
    have "writes (trace ?w6) =
           writes (trace w) @
           [(?du, lld ?dc, fst ?direct), (?en, ''0'', fst (write_ll os ?en 0 (snd ?rd))),
            (?du, ''1'', fst (write_ll os ?du 1 ?w3)), (?du, lld ?dc, fst ?again)] @
           (if fst ?rd = 0 then [] else [(?en, ''1'', fst (write_ll os ?en 1 (snd ?again)))])"
      by (simp add: fd cp(4))
    with r w' show "\<exists>r1 r2 r4 r5.
         writes (trace w') =
           writes (trace w) @
           [(?du, lld ?dc, fst ?direct), (?en, ''0'', r1), (?du, ''1'', r2), (?du, lld ?dc, r4)] @
           (if fst ?rd = 0 then [] else [(?en, ''1'', r5)]) \<and>
         rc = (if r4 = 0 then 0 else - 1)"
      by blast
  qed
  have com: "rc = 0 \<longrightarrow> committed ?du (writes (trace w')) = Some (lld ?dc)"
  proof
    assume z: "rc = 0"
    show "committed ?du (writes (trace w')) = Some (lld ?dc)"
    proof (cases "fst ?direct = 0")
      case True
      with ok show ?thesis by (simp add: committed_append)
    next
      case False
      with fb obtain r1 r2 r4 r5 where
        t: "writes (trace w') =
           writes (trace w) @
           [(?du, lld ?dc, fst ?direct), (?en, ''0'', r1), (?du, ''1'', r2), (?du, lld ?dc, r4)] @
           (if fst ?rd = 0 then [] else [(?en, ''1'', r5)])"
        and r: "rc = (if r4 = 0 then 0 else - 1)" by blast
      from r z have "r4 = 0" by (simp split: if_splits)
      with t show ?thesis by (simp add: committed_append)
    qed
  qed
  from cp(3) one inside band ok fb com show ?thesis
    unfolding Let_def g' c snd_conv by blast
qed

lemma read_ll_scripted:
  "read_ll (os_scripted e rd) p \<lparr>hw = h, trace = tr\<rparr> =
     ((case rd of None \<Rightarrow> - 1 | Some v \<Rightarrow> v), \<lparr>hw = h, trace = tr\<rparr>)"
  by (simp add: read_ll_def os_scripted_def)

theorem pwm_set_duty_writes_witness:
  "fst (PWM0_set_duty (os_scripted True (Some 1)) (31 / 32) (pwm_probed 20000000)
       (world_of [False])) = 0 \<and>
   committed ''/sys/class/pwm/pwmchip0/pwm0/duty_cycle''
     (writes (trace (snd (snd (PWM0_set_duty (os_scripted True (Some 1)) (31 / 32)
        (pwm_probed 20000000) (world_of [False])))))) = Some ''19000000'' \<and>
   writes (trace (snd (snd (PWM0_set_duty (os_scripted True (Some 1)) (1 / 4)
        (pwm_probed 20000000) (world_of []))))) =
     [(''/sys/class/pwm/pwmchip0/pwm0/duty_cycle'', ''5000000'', 0)]"
proof -
  let ?os = "os_scripted True (Some 1)"
  let ?g = "pwm_probed 20000000"
  let ?a = "PWM0_set_duty ?os (31 / 32) ?g (world_of [False])"
  let ?b = "PWM0_set_duty ?os (1 / 4) ?g (world_of [])"
  have dir: "g_pwm_dir ?g \<noteq> []" "length (g_pwm_dir ?g) + 11 < PATH_MAX"
    by (simp_all add: pwm_probed_def PATH_MAX_def)
  have cp: "cached_period ?os ?g x = (Some ?g, x)" for x
    by (simp add: cached_period_def pwm_probed_def)
  then have known: "fst (cached_period ?os ?g x) \<noteq> None" for x by simp
  have v: "bounded_dc_from_ratio (31 / 32) 20000000 = 19000000"
    "bounded_dc_from_ratio (1 / 4) 20000000 = 5000000"
    "lld 19000000 = ''19000000''" "lld 5000000 = ''5000000''"
    by (simp_all add: bounded_dc_from_ratio_def double_eval lld_def dec_digits.simps)
  have gd: "g_pwm_dir ?g = ''/sys/class/pwm/pwmchip0/pwm0''" "g_period_ns ?g = 20000000"
    by (simp_all add: pwm_probed_def)
  have ra: "fst ?a = 0 \<and> g_period_ns (fst (snd ?a)) = 20000000"
    by (simp add: PWM0_set_duty_unfold [OF cp dir] gd v Let_def world_of_def write_ll_scripted
        msleep_scripted read_ll_scripted)
  have rb: "g_period_ns (fst (snd ?b)) = 20000000 \<and>
      fst (write_ll ?os (g_pwm_dir ?g @ ''/duty_cycle'') 5000000 (world_of [])) = 0"
    by (simp add: PWM0_set_duty_unfold [OF cp dir] gd v Let_def world_of_def write_ll_scripted
        msleep_scripted read_ll_scripted)
  have fit: "fits_ll 20000000" by (simp add: fits_ll_def)
  have "?a = (0, fst (snd ?a), snd (snd ?a))" using ra by (metis prod.collapse)
  note ta = pwm_set_duty_writes [OF this dir known, unfolded Let_def]
  from ta ra fit have ca: "committed ''/sys/class/pwm/pwmchip0/pwm0/duty_cycle''
     (writes (trace (snd (snd ?a)))) = Some ''19000000''"
    by (simp add: gd v)
  have "?b = (fst ?b, fst (snd ?b), snd (snd ?b))" by simp
  note tb = pwm_set_duty_writes [OF this dir known, unfolded Let_def]
  from tb rb fit have cb: "writes (trace (snd (snd ?b))) =
     [(''/sys/class/pwm/pwmchip0/pwm0/duty_cycle'', ''5000000'', 0)]"
    by (simp add: gd v cp world_of_def)
  from ra ca cb show ?thesis by blast
qed

text \<open>
  Claim C7 as stated has every written duty strictly inside (0, period). Opening the
  channel at 2 GHz programs a period of 1 ns; \<^verbatim>\<open>PWM0_set_duty(0.5)\<close> then writes the duty
  0, which is accepted.
\<close>

theorem pwm_set_duty_at_rail:
  "PWM0_init (os_scripted True None) 2000000000 (1 / 2) pwm_start (world_of []) =
     (0, \<lparr>g_pwm_dir = ''/sys/class/pwm/pwmchip0/pwm0'', g_period_ns = 1, g_duty_frac = 0\<rparr>,
      \<lparr>hw = [], trace =
        [EvWrite ''/sys/class/pwm/pwmchip0/pwm0/enable'' ''0'' 0, EvSleep 2000000,
         EvWrite ''/sys/class/pwm/pwmchip0/pwm0/duty_cycle'' ''1'' 0, EvSleep 1000000,
         EvWrite ''/sys/class/pwm/pwmchip0/pwm0/period'' ''1'' 0,
         EvWrite ''/sys/class/pwm/pwmchip0/pwm0/duty_cycle'' ''0'' 0,
         EvWrite ''/sys/class/pwm/pwmchip0/pwm0/enable'' ''1'' 0]\<rparr>) \<and>
   PWM0_set_duty (os_scripted True None) (1 / 2)
     \<lparr>g_pwm_dir = ''/sys/class/pwm/pwmchip0/pwm0'', g_period_ns = 1, g_duty_frac = 0\<rparr>
     (world_of []) =
     (0, \<lparr>g_pwm_dir = ''/sys/class/pwm/pwmchip0/pwm0'', g_period_ns = 1, g_duty_frac = 1 / 2\<rparr>,
      \<lparr>hw = [], trace = [EvWrite ''/sys/class/pwm/pwmchip0/pwm0/duty_cycle'' ''0'' 0]\<rparr>)"
proof -
  have p: "init_period 2000000000 = 1" "init_fraction (1 / 2) = 1 / 2"
    "bounded_dc_from_ratio (1 / 2) 1 = 0"
    "ddiv (double_of_ll 0) (double_of_ll 1) = 0"
    by (simp_all add: init_period_def init_fraction_def bounded_dc_from_ratio_def double_eval)
  have a: "init_attempt (os_scripted True None) ''/sys/class/pwm/pwmchip0/pwm0/enable''
      ''/sys/class/pwm/pwmchip0/pwm0/period'' ''/sys/class/pwm/pwmchip0/pwm0/duty_cycle''
      1 0 (world_of []) =
   (True, \<lparr>hw = [], trace =
      [EvWrite ''/sys/class/pwm/pwmchip0/pwm0/enable'' ''0'' 0, EvSleep 2000000,
       EvWrite ''/sys/class/pwm/pwmchip0/pwm0/duty_cycle'' ''1'' 0, EvSleep 1000000,
       EvWrite ''/sys/class/pwm/pwmchip0/pwm0/period'' ''1'' 0,
       EvWrite ''/sys/class/pwm/pwmchip0/pwm0/duty_cycle'' ''0'' 0,
       EvWrite ''/sys/class/pwm/pwmchip0/pwm0/enable'' ''1'' 0]\<rparr>)"
    by (simp add: init_attempt_def world_of_def write_ll_scripted msleep_scripted Let_def)
  have 1: "PWM0_init (os_scripted True None) 2000000000 (1 / 2) pwm_start (world_of []) =
     (0, \<lparr>g_pwm_dir = ''/sys/class/pwm/pwmchip0/pwm0'', g_period_ns = 1, g_duty_frac = 0\<rparr>,
      \<lparr>hw = [], trace =
        [EvWrite ''/sys/class/pwm/pwmchip0/pwm0/enable'' ''0'' 0, EvSleep 2000000,
         EvWrite ''/sys/class/pwm/pwmchip0/pwm0/duty_cycle'' ''1'' 0, EvSleep 1000000,
         EvWrite ''/sys/class/pwm/pwmchip0/pwm0/period'' ''1'' 0,
         EvWrite ''/sys/class/pwm/pwmchip0/pwm0/duty_cycle'' ''0'' 0,
         EvWrite ''/sys/class/pwm/pwmchip0/pwm0/enable'' ''1'' 0]\<rparr>)"
    by (simp add: PWM0_init_def probe_start pwm_probed_def path_join2_def PATH_MAX_def Let_def
        p init_loop_unroll a)
  have 2: "PWM0_set_duty (os_scripted True None) (1 / 2)
     \<lparr>g_pwm_dir = ''/sys/class/pwm/pwmchip0/pwm0'', g_period_ns = 1, g_duty_frac = 0\<rparr>
     (world_of []) =
     (0, \<lparr>g_pwm_dir = ''/sys/class/pwm/pwmchip0/pwm0'', g_period_ns = 1, g_duty_frac = 1 / 2\<rparr>,
      \<lparr>hw = [], trace = [EvWrite ''/sys/class/pwm/pwmchip0/pwm0/duty_cycle'' ''0'' 0]\<rparr>)"
    by (simp add: PWM0_set_duty_def cached_period_def path_join2_def PATH_MAX_def Let_def p
        world_of_def write_ll_scripted)
  from 1 2 show ?thesis by (rule conjI)
qed

lemma written_write_ll:
  "written p (writes (trace (snd (write_ll os q v w)))) =
     written p (writes (trace w)) @ (if q = p \<and> length (lld v) < 32 then [lld v] else [])"
  by (simp add: write_ll_def Let_def)

lemma written_msleep [simp]:
  "written p (writes (trace (msleep os n w))) = written p (writes (trace w))"
  by simp

lemma freq_path_a_written:
  "pe \<noteq> du \<Longrightarrow>
   set (written du (writes (trace (snd (freq_path_a os pe du np nd w))))) \<subseteq>
     set (written du (writes (trace w))) \<union> {''1'', lld nd}"
  by (auto simp: freq_path_a_def case_prod_beta written_write_ll split: if_splits)

lemma freq_path_b_written:
  "pe \<noteq> du \<Longrightarrow>
   set (written du (writes (trace (snd (freq_path_b os pe du np nd w))))) \<subseteq>
     set (written du (writes (trace w))) \<union> {''1'', lld nd}"
  by (auto simp: freq_path_b_def case_prod_beta written_write_ll split: if_splits)

lemma freq_backoff_written:
  "en \<noteq> du \<Longrightarrow>
   written du (writes (trace (freq_backoff os en w))) = written du (writes (trace w))"
  by (simp add: freq_backoff_def written_write_ll)

lemma freq_attempt_written:
  "pe \<noteq> du \<Longrightarrow> en \<noteq> du \<Longrightarrow>
   set (written du (writes (trace (snd (freq_attempt os en pe du np nd w))))) \<subseteq>
     set (written du (writes (trace w))) \<union> {''1'', lld nd}"
  by (auto simp: freq_attempt_def Let_def case_prod_beta written_write_ll freq_backoff_written
      split: if_splits)

lemma freq_loop_unroll:
  "freq_loop os en pe du np nd 0 w =
     (if fst (freq_attempt os en pe du np nd w) then (True, snd (freq_attempt os en pe du np nd w))
      else if fst (freq_attempt os en pe du np nd (snd (freq_attempt os en pe du np nd w)))
      then (True, snd (freq_attempt os en pe du np nd (snd (freq_attempt os en pe du np nd w))))
      else (False, snd (freq_attempt os en pe du np nd (snd (freq_attempt os en pe du np nd w)))))"
proof -
  have 2: "freq_loop os en pe du np nd (Suc (Suc 0)) x = (False, x)" for x
    by (subst freq_loop.simps) simp
  have 1: "freq_loop os en pe du np nd (Suc 0) x =
      (if fst (freq_attempt os en pe du np nd x) then (True, snd (freq_attempt os en pe du np nd x))
       else (False, snd (freq_attempt os en pe du np nd x)))" for x
    by (subst freq_loop.simps) (simp add: 2 case_prod_beta)
  have 0: "freq_loop os en pe du np nd 0 x =
      (if fst (freq_attempt os en pe du np nd x) then (True, snd (freq_attempt os en pe du np nd x))
       else freq_loop os en pe du np nd (Suc 0) (snd (freq_attempt os en pe du np nd x)))" for x
    by (subst freq_loop.simps) (simp add: case_prod_beta)
  show ?thesis by (simp only: 0 1)
qed

lemma freq_loop_written:
  assumes "pe \<noteq> du" "en \<noteq> du"
  shows "set (written du (writes (trace (snd (freq_loop os en pe du np nd 0 w))))) \<subseteq>
     set (written du (writes (trace w))) \<union> {''1'', lld nd}"
proof -
  let ?a = "freq_attempt os en pe du np nd"
  have 1: "set (written du (writes (trace (snd (?a w))))) \<subseteq>
     set (written du (writes (trace w))) \<union> {''1'', lld nd}"
    using assms by (rule freq_attempt_written)
  have "set (written du (writes (trace (snd (?a (snd (?a w))))))) \<subseteq>
     set (written du (writes (trace (snd (?a w))))) \<union> {''1'', lld nd}"
    using assms by (rule freq_attempt_written)
  with 1 have 2: "set (written du (writes (trace (snd (?a (snd (?a w))))))) \<subseteq>
     set (written du (writes (trace w))) \<union> {''1'', lld nd}" by blast
  from 1 2 show ?thesis unfolding freq_loop_unroll by (simp split: if_splits)
qed

lemma PWM0_set_freq_result:
  assumes "PWM0_set_freq os hz g w = (rc, g', w')"
  shows "(rc = 0 \<or> rc = - 1) \<and> (rc \<noteq> 0 \<longrightarrow> g' = g) \<and>
     (rc = 0 \<longrightarrow> g' = g\<lparr>g_period_ns := new_period hz,
        g_duty_frac := ddiv (double_of_ll (bounded_dc_from_ratio (g_duty_frac g) (new_period hz)))
                         (double_of_ll (new_period hz))\<rparr>)"
  using assms
  by (auto simp: PWM0_set_freq_def Let_def case_prod_beta
      split: if_splits option.splits)

lemma PWM0_set_freq_guard:
  "g_pwm_dir g = [] \<or> hz \<le> 0 \<or> \<not> length (g_pwm_dir g) + 11 < PATH_MAX \<Longrightarrow>
   snd (snd (PWM0_set_freq os hz g w)) = w"
  by (auto simp: PWM0_set_freq_def path_join2_Some split: option.splits)

lemma PWM0_set_freq_unfold:
  assumes "g_pwm_dir g \<noteq> []" "0 < hz" "length (g_pwm_dir g) + 11 < PATH_MAX"
  shows "snd (snd (PWM0_set_freq os hz g w)) =
     (let en = g_pwm_dir g @ ''/enable'';
          pe = g_pwm_dir g @ ''/period'';
          du = g_pwm_dir g @ ''/duty_cycle'';
          np = new_period hz;
          nd = bounded_dc_from_ratio (g_duty_frac g) np;
          w0 = snd (read_ll os en w);
          w1 = (if fst (read_ll os en w) = 0 then msleep os 2 (snd (write_ll os en 1 w0)) else w0);
          a = freq_path_a os pe du np nd w1;
          b = freq_path_b os pe du np nd (snd a);
          c = freq_loop os en pe du np nd 0 (snd b)
      in if fst a then snd a else if fst b then snd b else snd c)"
  using assms
  by (simp add: PWM0_set_freq_def path_join2_def min_def Let_def case_prod_beta)

lemma PWM0_set_freq_written:
  "set (written (g_pwm_dir g @ ''/duty_cycle'') (writes (trace (snd (snd (PWM0_set_freq os hz g w)))))) \<subseteq>
     set (written (g_pwm_dir g @ ''/duty_cycle'') (writes (trace w))) \<union>
       {''1'', lld (bounded_dc_from_ratio (g_duty_frac g) (new_period hz))}"
proof (cases "g_pwm_dir g \<noteq> [] \<and> 0 < hz \<and> length (g_pwm_dir g) + 11 < PATH_MAX")
  case False
  then have "snd (snd (PWM0_set_freq os hz g w)) = w"
    by (intro PWM0_set_freq_guard) auto
  then show ?thesis by auto
next
  case True
  let ?du = "g_pwm_dir g @ ''/duty_cycle''"
  let ?pe = "g_pwm_dir g @ ''/period''"
  let ?en = "g_pwm_dir g @ ''/enable''"
  let ?np = "new_period hz"
  let ?nd = "bounded_dc_from_ratio (g_duty_frac g) ?np"
  let ?D = "\<lambda>x. set (written ?du (writes (trace x)))"
  let ?S = "{''1'', lld ?nd}"
  let ?w0 = "snd (read_ll os ?en w)"
  let ?w1 = "if fst (read_ll os ?en w) = 0 then msleep os 2 (snd (write_ll os ?en 1 ?w0)) else ?w0"
  let ?a = "freq_path_a os ?pe ?du ?np ?nd ?w1"
  let ?b = "freq_path_b os ?pe ?du ?np ?nd (snd ?a)"
  let ?c = "freq_loop os ?en ?pe ?du ?np ?nd 0 (snd ?b)"
  have ne: "?pe \<noteq> ?du" "?en \<noteq> ?du" by simp_all
  have 1: "?D ?w1 = ?D w" by (simp add: written_write_ll)
  have 2: "?D (snd ?a) \<subseteq> ?D ?w1 \<union> ?S" using ne(1) by (rule freq_path_a_written)
  have 3: "?D (snd ?b) \<subseteq> ?D (snd ?a) \<union> ?S" using ne(1) by (rule freq_path_b_written)
  have 4: "?D (snd ?c) \<subseteq> ?D (snd ?b) \<union> ?S" using ne by (rule freq_loop_written)
  from 1 2 have a: "?D (snd ?a) \<subseteq> ?D w \<union> ?S" by blast
  from a 3 have b: "?D (snd ?b) \<subseteq> ?D w \<union> ?S" by blast
  from b 4 have c: "?D (snd ?c) \<subseteq> ?D w \<union> ?S" by blast
  from True have t: "g_pwm_dir g \<noteq> []" "0 < hz" "length (g_pwm_dir g) + 11 < PATH_MAX"
    by simp_all
  note u = PWM0_set_freq_unfold [OF t, of os w, unfolded Let_def]
  show ?thesis
  proof (cases "fst ?a")
    case True
    with u a show ?thesis by (simp only: if_True)
  next
    case na: False
    show ?thesis
    proof (cases "fst ?b")
      case True
      with na u b show ?thesis by (simp only: if_True if_False)
    next
      case False
      with na u c show ?thesis by (simp only: if_False)
    qed
  qed
qed

lemma PWM0_set_duty_stores:
  assumes "cached_period os g w = (Some g1, w0)" "g_pwm_dir g \<noteq> []"
  shows "fst (snd (PWM0_set_duty os f g w)) = g1\<lparr>g_duty_frac := f\<rparr>"
  using assms
  by (simp add: PWM0_set_duty_def Let_def case_prod_beta split: option.splits)

lemma PWM0_set_duty_guarded:
  assumes "g_pwm_dir g = [] \<or> fst (cached_period os g w) = None"
  shows "fst (PWM0_set_duty os f g w) = - 1 \<and> fst (snd (PWM0_set_duty os f g w)) = g \<and>
     trace (snd (snd (PWM0_set_duty os f g w))) = trace w"
proof (cases "g_pwm_dir g = []")
  case True
  then show ?thesis by (simp add: PWM0_set_duty_def)
next
  case False
  with assms obtain w0 where c: "cached_period os g w = (None, w0)"
    by (cases "cached_period os g w") auto
  from cached_period_None [OF c] False show ?thesis
    by (simp add: PWM0_set_duty_def c)
qed

text \<open>
  Claim C10, as the code has it. When \<^verbatim>\<open>PWM0_set_duty\<close> is stopped by a guard (no probed
  channel, or a period that is neither cached nor readable), it returns -1 and leaves the
  remembered ratio and the hardware alone. Otherwise the remembered ratio is the raw
  argument whatever the writes answer, also when the call fails. A later
  \<^verbatim>\<open>PWM0_set_freq\<close> then writes to the duty attribute nothing but 1 and the target that
  \<^verbatim>\<open>bounded_dc_from_ratio\<close> derives from that raw ratio and the new period (the ratio is
  limited to [0.05, 0.95] there, at use); on success it remembers the new period and the
  double quotient of target and period, on failure it leaves the module state as it was.
  The new period \<^verbatim>\<open>llround(1e9 / hz)\<close> is taken to fit a \<^verbatim>\<open>long long\<close>. When it is at
  least 20 ns the target is the double product of the limited ratio and the period,
  rounded to the nearest integer, within half a nanosecond plus a relative \<open>2\<^sup>-\<^sup>5\<^sup>1\<close>
  of the exact product.
\<close>

theorem pwm_duty_ratio_raw:
  assumes fit: "fits_ll (new_period hz)"
  shows "(let r = PWM0_set_duty os f g w;
        g' = fst (snd r);
        du = g_pwm_dir g' @ ''/duty_cycle'';
        r2 = PWM0_set_freq os hz g' w2;
        np = new_period hz;
        target = bounded_dc_from_ratio f np;
        c = (if f < to_double (5 / 100) then to_double (5 / 100)
             else if f > to_double (95 / 100) then to_double (95 / 100) else f)
    in (g_pwm_dir g = [] \<or> fst (cached_period os g w) = None \<longrightarrow>
          fst r = - 1 \<and> g' = g \<and> trace (snd (snd r)) = trace w) \<and>
       (g_pwm_dir g \<noteq> [] \<and> fst (cached_period os g w) \<noteq> None \<longrightarrow>
          g_duty_frac g' = f \<and>
          set (written du (writes (trace (snd (snd r2))))) \<subseteq>
            set (written du (writes (trace w2))) \<union> {''1'', lld target} \<and>
          (fst r2 = 0 \<longrightarrow>
             g_period_ns (fst (snd r2)) = np \<and>
             g_duty_frac (fst (snd r2)) = ddiv (double_of_ll target) (double_of_ll np)) \<and>
          (fst r2 \<noteq> 0 \<longrightarrow> fst (snd r2) = g') \<and>
          fits_ll target \<and>
          (20 \<le> np \<longrightarrow>
             target = llround (dmul c (double_of_ll np)) \<and>
             \<bar>real_of_int target - c * real_of_int np\<bar>
               \<le> 1 / 2 + c * real_of_int np / 2 ^ 51)))"
proof -
  let ?r = "PWM0_set_duty os f g w"
  let ?g' = "fst (snd ?r)"
  let ?du = "g_pwm_dir ?g' @ ''/duty_cycle''"
  let ?r2 = "PWM0_set_freq os hz ?g' w2"
  let ?np = "new_period hz"
  let ?target = "bounded_dc_from_ratio f ?np"
  let ?c = "if f < to_double (5 / 100) then to_double (5 / 100)
            else if f > to_double (95 / 100) then to_double (95 / 100) else f"
  have np1: "1 \<le> ?np" by (simp add: new_period_def Let_def)
  have ft: "fits_ll ?target" using np1 fit by (rule fits_ll_bounded_dc)
  have guarded: "g_pwm_dir g = [] \<or> fst (cached_period os g w) = None \<longrightarrow>
      fst ?r = - 1 \<and> ?g' = g \<and> trace (snd (snd ?r)) = trace w"
    using PWM0_set_duty_guarded [of g os w f] by blast
  have stored: "g_pwm_dir g \<noteq> [] \<and> fst (cached_period os g w) \<noteq> None \<longrightarrow>
      g_duty_frac ?g' = f \<and>
      set (written ?du (writes (trace (snd (snd ?r2))))) \<subseteq>
        set (written ?du (writes (trace w2))) \<union> {''1'', lld ?target} \<and>
      (fst ?r2 = 0 \<longrightarrow>
         g_period_ns (fst (snd ?r2)) = ?np \<and>
         g_duty_frac (fst (snd ?r2)) = ddiv (double_of_ll ?target) (double_of_ll ?np)) \<and>
      (fst ?r2 \<noteq> 0 \<longrightarrow> fst (snd ?r2) = ?g') \<and>
      fits_ll ?target \<and>
      (20 \<le> ?np \<longrightarrow>
         ?target = llround (dmul ?c (double_of_ll ?np)) \<and>
         \<bar>real_of_int ?target - ?c * real_of_int ?np\<bar>
           \<le> 1 / 2 + ?c * real_of_int ?np / 2 ^ 51)"
  proof
    assume a: "g_pwm_dir g \<noteq> [] \<and> fst (cached_period os g w) \<noteq> None"
    then obtain g1 w0 where c: "cached_period os g w = (Some g1, w0)"
      by (cases "cached_period os g w") auto
    from a have "?g' = g1\<lparr>g_duty_frac := f\<rparr>" by (intro PWM0_set_duty_stores [OF c]) simp
    then have f: "g_duty_frac ?g' = f" by simp
    have wr: "set (written ?du (writes (trace (snd (snd ?r2))))) \<subseteq>
        set (written ?du (writes (trace w2))) \<union> {''1'', lld ?target}"
      using PWM0_set_freq_written [of ?g' os hz w2] unfolding f .
    have "?r2 = (fst ?r2, fst (snd ?r2), snd (snd ?r2))" by simp
    note res = PWM0_set_freq_result [OF this, unfolded f]
    have ok: "fst ?r2 = 0 \<longrightarrow>
         g_period_ns (fst (snd ?r2)) = ?np \<and>
         g_duty_frac (fst (snd ?r2)) = ddiv (double_of_ll ?target) (double_of_ll ?np)"
    proof
      assume "fst ?r2 = 0"
      with res have "fst (snd ?r2) = ?g'\<lparr>g_period_ns := ?np,
          g_duty_frac := ddiv (double_of_ll ?target) (double_of_ll ?np)\<rparr>" by blast
      then show "g_period_ns (fst (snd ?r2)) = ?np \<and>
         g_duty_frac (fst (snd ?r2)) = ddiv (double_of_ll ?target) (double_of_ll ?np)" by simp
    qed
    from res have bad: "fst ?r2 \<noteq> 0 \<longrightarrow> fst (snd ?r2) = ?g'" by blast
    have cl: "20 \<le> ?np \<longrightarrow>
         ?target = llround (dmul ?c (double_of_ll ?np)) \<and>
         \<bar>real_of_int ?target - ?c * real_of_int ?np\<bar>
           \<le> 1 / 2 + ?c * real_of_int ?np / 2 ^ 51"
      using bounded_dc_clamped [of ?np f, unfolded Let_def] by blast
    from f wr ok bad ft cl show "g_duty_frac ?g' = f \<and>
      set (written ?du (writes (trace (snd (snd ?r2))))) \<subseteq>
        set (written ?du (writes (trace w2))) \<union> {''1'', lld ?target} \<and>
      (fst ?r2 = 0 \<longrightarrow>
         g_period_ns (fst (snd ?r2)) = ?np \<and>
         g_duty_frac (fst (snd ?r2)) = ddiv (double_of_ll ?target) (double_of_ll ?np)) \<and>
      (fst ?r2 \<noteq> 0 \<longrightarrow> fst (snd ?r2) = ?g') \<and>
      fits_ll ?target \<and>
      (20 \<le> ?np \<longrightarrow>
         ?target = llround (dmul ?c (double_of_ll ?np)) \<and>
         \<bar>real_of_int ?target - ?c * real_of_int ?np\<bar>
           \<le> 1 / 2 + ?c * real_of_int ?np / 2 ^ 51)"
      by (intro conjI)
  qed
  from guarded stored show ?thesis unfolding Let_def by (rule conjI)
qed

theorem pwm_duty_ratio_raw_witness:
  "fst (PWM0_set_duty (os_scripted True (Some 1)) (31 / 32) (pwm_probed 20000000)
     (world_of [False, True, True, False])) = - 1 \<and>
   g_duty_frac (fst (snd (PWM0_set_duty (os_scripted True (Some 1)) (31 / 32)
     (pwm_probed 20000000) (world_of [False, True, True, False])))) = 31 / 32 \<and>
   g_duty_frac (fst (snd (PWM0_set_freq (os_scripted True (Some 1)) 100
     (fst (snd (PWM0_set_duty (os_scripted True (Some 1)) (31 / 32)
        (pwm_probed 20000000) (world_of [False, True, True, False])))) (world_of [])))) = to_double (95 / 100) \<and>
   fst (PWM0_set_duty (os_scripted True (Some 1)) (31 / 32) pwm_start (world_of [])) = - 1 \<and>
   fst (snd (PWM0_set_duty (os_scripted True (Some 1)) (31 / 32) pwm_start (world_of []))) =
     pwm_start"
proof -
  let ?os = "os_scripted True (Some 1)"
  let ?g = "pwm_probed 20000000"
  let ?w = "world_of [False, True, True, False]"
  let ?r = "PWM0_set_duty ?os (31 / 32) ?g ?w"
  let ?g' = "fst (snd ?r)"
  let ?r2 = "PWM0_set_freq ?os 100 ?g' (world_of [])"
  have dir: "g_pwm_dir ?g \<noteq> []" "length (g_pwm_dir ?g) + 11 < PATH_MAX"
    by (simp_all add: pwm_probed_def PATH_MAX_def)
  have cp: "cached_period ?os ?g x = (Some ?g, x)" for x
    by (simp add: cached_period_def pwm_probed_def)
  have hyp: "g_pwm_dir ?g \<noteq> [] \<and> fst (cached_period ?os ?g ?w) \<noteq> None"
    using dir cp by simp
  have v: "bounded_dc_from_ratio (31 / 32) 20000000 = 19000000"
    "new_period 100 = 10000000"
    "bounded_dc_from_ratio (31 / 32) 10000000 = 9500000"
    "lld 19000000 = ''19000000''" "lld 9500000 = ''9500000''" "lld 10000000 = ''10000000''"
    by (simp_all add: bounded_dc_from_ratio_def new_period_def double_eval lld_def
        dec_digits.simps)
  have q: "ddiv (double_of_ll 9500000) (double_of_ll 10000000) = to_double (95 / 100)"
    by (simp add: double_eval)
  have fit: "fits_ll (new_period 100)" by (simp add: v fits_ll_def)
  have gd: "g_pwm_dir ?g = ''/sys/class/pwm/pwmchip0/pwm0''" "g_period_ns ?g = 20000000"
    by (simp_all add: pwm_probed_def)
  have rc: "fst ?r = - 1"
    by (simp add: PWM0_set_duty_unfold [OF cp dir] gd v Let_def world_of_def write_ll_scripted
        msleep_scripted read_ll_scripted)
  have g': "?g' = ?g\<lparr>g_duty_frac := 31 / 32\<rparr>"
    using cp dir(1) by (rule PWM0_set_duty_stores)
  have rc2: "fst ?r2 = 0"
    unfolding g'
    by (simp add: PWM0_set_freq_def pwm_probed_def path_join2_def PATH_MAX_def v Let_def
        world_of_def read_ll_scripted freq_path_a_def write_ll_scripted)
  note t = pwm_duty_ratio_raw [OF fit, of ?os "31 / 32" ?g ?w "world_of []", unfolded Let_def,
      THEN conjunct2, rule_format, OF hyp]
  from t have f: "g_duty_frac ?g' = 31 / 32" by (rule conjunct1)
  from t rc2 have "g_duty_frac (fst (snd ?r2)) =
      ddiv (double_of_ll (bounded_dc_from_ratio (31 / 32) (new_period 100)))
        (double_of_ll (new_period 100))"
    by blast
  then have f2: "g_duty_frac (fst (snd ?r2)) = to_double (95 / 100)" by (simp only: v q)
  have guard: "g_pwm_dir pwm_start = [] \<or> fst (cached_period ?os pwm_start (world_of [])) = None"
    by (simp add: pwm_start_def)
  note s = pwm_duty_ratio_raw [OF fit, of ?os "31 / 32" pwm_start "world_of []" "world_of []",
      unfolded Let_def, THEN conjunct1, rule_format, OF guard]
  from s have g: "fst (PWM0_set_duty ?os (31 / 32) pwm_start (world_of [])) = - 1 \<and>
      fst (snd (PWM0_set_duty ?os (31 / 32) pwm_start (world_of []))) = pwm_start"
    by blast
  from rc f f2 g show ?thesis by blast
qed

text \<open>
  Claim C10 as stated has the remembered ratio equal the argument even when the call
  fails. With no channel probed, and with a probed channel whose period is neither cached
  nor readable, \<^verbatim>\<open>PWM0_set_duty(0.25)\<close> fails and the remembered ratio stays 0.5.
\<close>

theorem pwm_set_duty_guard_keeps_ratio:
  "PWM0_set_duty (os_scripted True None) (1 / 4) pwm_start (world_of []) =
     (- 1, pwm_start, world_of []) \<and>
   g_duty_frac pwm_start = 1 / 2 \<and>
   PWM0_set_duty (os_scripted True None) (1 / 4) (pwm_probed 0) (world_of []) =
     (- 1, pwm_probed 0, world_of []) \<and>
   g_duty_frac (pwm_probed 0) = 1 / 2"
  by (simp add: PWM0_set_duty_def cached_period_def pwm_start_def pwm_probed_def path_join2_def
      PATH_MAX_def world_of_def read_ll_scripted)

end
